theory Spec2Isabelle
  imports Main "HOL-Library.Sublist"
begin

section \<open>Data model\<close>

text \<open>
  The Python exceptions that the modelled code can raise. Every raise of the source is a
  branch of the model returning \<open>Inl\<close> of one of these.
\<close>

datatype error =
    TypeError
  | IndexError
  | FileNotFoundError
  | FileExistsError
  | IsADirectoryError
  | NotADirectoryError
  | OSError
  | URLError
  | BadZipFile
  | UnpicklingError
  | ParseError

text \<open>
  A two-dimensional tensor of shape \<open>(length entries, ncols)\<close>. The column count is kept
  apart from the rows, since a tensor with no rows still has a width. The entries are never
  computed with, so their type is left open.
\<close>

record 'a matrix =
  ncols :: nat
  entries :: "'a list list"

definition wf_matrix :: "'a matrix \<Rightarrow> bool" where
  "wf_matrix m = list_all (\<lambda>r. length r = ncols m) (entries m)"

text \<open>
  The slice \<^verbatim>\<open>t[:, k:]\<close> of a two-dimensional tensor, followed by \<^verbatim>\<open>.contiguous()\<close>
  (which changes the memory layout only). As Python slicing does, a start beyond the width
  is clamped to the width and a negative start counts from the right.
\<close>

definition slice_start :: "int \<Rightarrow> nat \<Rightarrow> nat" where
  "slice_start k c = (if k < 0 then nat (max (int c + k) 0) else min (nat k) c)"

definition slice_cols :: "int \<Rightarrow> 'a matrix \<Rightarrow> 'a matrix" where
  "slice_cols k m =
     \<lparr>ncols = ncols m - slice_start k (ncols m),
      entries = map (drop (slice_start k (ncols m))) (entries m)\<rparr>"

text \<open>
  The sparse adjacency structure \<^verbatim>\<open>data.adj\<close>: coordinates and the optional edge-value
  channels (\<^verbatim>\<open>adj.storage.value()\<close> is \<^verbatim>\<open>None\<close> for a graph without edge features).
\<close>

record 'a sparse_tensor =
  row :: "nat list"
  col :: "nat list"
  storage_value :: "'a matrix option"

text \<open>
  One graph record (\<^verbatim>\<open>torch_geometric.data.Data\<close>): the node feature matrix \<^verbatim>\<open>x\<close>
  (\<^verbatim>\<open>None\<close> for a dataset without node features), the adjacency \<^verbatim>\<open>adj\<close> and the
  optional graph-level target \<^verbatim>\<open>y\<close>.
\<close>

record 'a data =
  data_x :: "'a matrix option"
  data_adj :: "'a sparse_tensor"
  data_y :: "'a option"

text \<open>
  The arguments of \<^verbatim>\<open>TUDataset.__init__\<close>. The per-access \<^verbatim>\<open>transform\<close> is left out:
  no line of the class reads it, and it does not touch the stored records.
\<close>

record 'a args =
  root :: string
  name :: string
  pre_transform :: "('a data \<Rightarrow> 'a data) option"
  pre_filter :: "('a data \<Rightarrow> bool) option"
  use_node_attributes :: bool
  use_edge_attributes :: bool
  cleaned :: bool

text \<open>
  The loaded dataset object: the fields that \<^verbatim>\<open>TUDataset.__init__\<close> assigns after the
  base class constructor has returned.
\<close>

record 'a tu_dataset =
  data_list :: "'a data list"
  num_node_attributes :: int
  num_edge_attributes :: int

section \<open>The stripping pass of the constructor\<close>

text \<open>
  \<^verbatim>\<open>data.x = data.x[:, self.num_node_attributes:].contiguous()\<close>.
  Subscripting \<^verbatim>\<open>None\<close> raises \<^verbatim>\<open>TypeError\<close>.
\<close>

definition strip_x :: "int \<Rightarrow> 'a data \<Rightarrow> error + 'a data" where
  "strip_x k d =
     (case data_x d of
        None \<Rightarrow> Inl TypeError
      | Some m \<Rightarrow> Inr (d\<lparr>data_x := Some (slice_cols k m)\<rparr>))"

text \<open>
  \<^verbatim>\<open>value = data.adj.storage.value(); value = value[:, k:].contiguous();
  data.adj.set_value_(value, layout='coo')\<close>.
\<close>

definition strip_value :: "int \<Rightarrow> 'a data \<Rightarrow> error + 'a data" where
  "strip_value k d =
     (case storage_value (data_adj d) of
        None \<Rightarrow> Inl TypeError
      | Some v \<Rightarrow> Inr (d\<lparr>data_adj := (data_adj d)\<lparr>storage_value := Some (slice_cols k v)\<rparr>\<rparr>))"

text \<open>
  \<^verbatim>\<open>for data in self.data_list: ...\<close> with a body that may raise: the loop stops at the
  first exception. The records of the list are distinct objects (the parser builds one per
  graph), so updating them in place is updating the list position by position.
\<close>

fun for_each :: "('b \<Rightarrow> error + 'b) \<Rightarrow> 'b list \<Rightarrow> error + 'b list" where
  "for_each f [] = Inr []"
| "for_each f (d # ds) =
     (case f d of
        Inl e \<Rightarrow> Inl e
      | Inr d' \<Rightarrow> (case for_each f ds of Inl e \<Rightarrow> Inl e | Inr ds' \<Rightarrow> Inr (d' # ds')))"

text \<open>
  Lines 70 to 78 of \<^verbatim>\<open>__init__\<close>: the two conditional stripping loops, run on the three
  values just read from the processed artifacts.
\<close>

definition strip_attributes :: "'a args \<Rightarrow> 'a tu_dataset \<Rightarrow> error + 'a tu_dataset" where
  "strip_attributes a self =
     (case (if num_node_attributes self > 0 \<and> \<not> use_node_attributes a
            then for_each (strip_x (num_node_attributes self)) (data_list self)
            else Inr (data_list self)) of
        Inl e \<Rightarrow> Inl e
      | Inr ds1 \<Rightarrow>
          (case (if num_edge_attributes self > 0 \<and> \<not> use_edge_attributes a
                 then for_each (strip_value (num_edge_attributes self)) ds1
                 else Inr ds1) of
             Inl e \<Rightarrow> Inl e
           | Inr ds2 \<Rightarrow> Inr (self\<lparr>data_list := ds2\<rparr>)))"

section \<open>Derived counts\<close>

text \<open>
  Modelled from the spec: the properties \<^verbatim>\<open>num_node_features\<close> and \<^verbatim>\<open>num_edge_features\<close>
  belong to the base class \<^verbatim>\<open>InMemoryDataset\<close>, which is not among the sources. In the spec
  they count all feature channels of a record, attribute columns and label columns alike,
  whatever the flags: a dataset loaded with \<^verbatim>\<open>use_node_attributes=True\<close> shows
  \<^verbatim>\<open>num_node_features\<close> columns, one loaded with \<^verbatim>\<open>use_node_attributes=False\<close> shows
  \<^verbatim>\<open>num_node_labels\<close> columns, and
  \<^verbatim>\<open>num_node_labels + num_node_attributes == num_node_features\<close> either way. That is the
  width the records have before the stripping pass, so the count is taken from the record
  list as persisted (the list read at line 66): the width of its first record's matrix,
  \<open>0\<close> when that record has no matrix. A list without a record has nothing to measure
  (\<^verbatim>\<open>IndexError\<close>).
\<close>

definition width :: "'a matrix option \<Rightarrow> int" where
  "width mo = (case mo of None \<Rightarrow> 0 | Some m \<Rightarrow> int (ncols m))"

definition num_node_features :: "'a data list \<Rightarrow> error + int" where
  "num_node_features persisted =
     (case persisted of
        [] \<Rightarrow> Inl IndexError
      | d # _ \<Rightarrow> Inr (width (data_x d)))"

definition num_edge_features :: "'a data list \<Rightarrow> error + int" where
  "num_edge_features persisted =
     (case persisted of
        [] \<Rightarrow> Inl IndexError
      | d # _ \<Rightarrow> Inr (width (storage_value (data_adj d))))"

text \<open>
  \<^verbatim>\<open>return self.num_node_features - self.num_node_attributes\<close>, with the record list as
  persisted handed on to the base class property.
\<close>

definition num_node_labels :: "'a data list \<Rightarrow> 'a tu_dataset \<Rightarrow> error + int" where
  "num_node_labels persisted self =
     (case num_node_features persisted of
        Inl e \<Rightarrow> Inl e
      | Inr f \<Rightarrow> Inr (f - num_node_attributes self))"

text \<open>\<^verbatim>\<open>return self.num_edge_features - self.num_edge_attributes\<close>, likewise.\<close>

definition num_edge_labels :: "'a data list \<Rightarrow> 'a tu_dataset \<Rightarrow> error + int" where
  "num_edge_labels persisted self =
     (case num_edge_features persisted of
        Inl e \<Rightarrow> Inl e
      | Inr f \<Rightarrow> Inr (f - num_edge_attributes self))"

section \<open>Paths\<close>

text \<open>
  \<^verbatim>\<open>os.path.join\<close> on POSIX: a component that starts with a slash replaces what was
  joined before it; otherwise it is appended, after a slash unless the path so far is empty
  or already ends with one.
\<close>

definition startswith_sep :: "string \<Rightarrow> bool" where
  "startswith_sep p = (p \<noteq> [] \<and> hd p = CHR ''/'')"

definition endswith_sep :: "string \<Rightarrow> bool" where
  "endswith_sep p = (p \<noteq> [] \<and> last p = CHR ''/'')"

definition join2 :: "string \<Rightarrow> string \<Rightarrow> string" where
  "join2 path b =
     (if startswith_sep b then b
      else if path = [] \<or> endswith_sep path then path @ b
      else path @ ''/'' @ b)"

definition osp_join :: "string \<Rightarrow> string list \<Rightarrow> string" where
  "osp_join a p = foldl join2 a p"

text \<open>\<^verbatim>\<open>'raw{}'.format('_cleaned' if self.cleaned else '')\<close> joined below root and name.\<close>

definition raw_dir :: "'a args \<Rightarrow> string" where
  "raw_dir a = osp_join (root a) [name a, ''raw'' @ (if cleaned a then ''_cleaned'' else [])]"

definition processed_dir :: "'a args \<Rightarrow> string" where
  "processed_dir a =
     osp_join (root a) [name a, ''processed'' @ (if cleaned a then ''_cleaned'' else [])]"

text \<open>\<^verbatim>\<open>['{}_{}.txt'.format(self.name, name) for name in ['A', 'graph_indicator']]\<close>\<close>

definition raw_file_names :: "'a args \<Rightarrow> string list" where
  "raw_file_names a = map (\<lambda>n. name a @ ''_'' @ n @ ''.txt'') [''A'', ''graph_indicator'']"

definition processed_file_names :: "string list" where
  "processed_file_names = [''data.pt'', ''num_node_attributes.pt'', ''num_edge_attributes.pt'']"

text \<open>
  Modelled from the spec: \<^verbatim>\<open>raw_paths\<close> and \<^verbatim>\<open>processed_paths\<close> are properties of the base
  class, which is not among the sources. The spec's filesystem layout puts each raw file
  directly below the raw directory and each processed artifact directly below the processed
  directory.
\<close>

definition raw_paths :: "'a args \<Rightarrow> string list" where
  "raw_paths a = map (\<lambda>f. osp_join (raw_dir a) [f]) (raw_file_names a)"

definition processed_paths :: "'a args \<Rightarrow> string list" where
  "processed_paths a = map (\<lambda>f. osp_join (processed_dir a) [f]) processed_file_names"

definition url :: string where
  "url = ''https://ls11-www.cs.tu-dortmund.de/people/morris/'' @ ''graphkerneldatasets''"

definition cleaned_url :: string where
  "cleaned_url = ''https://raw.githubusercontent.com/nd7141/'' @ ''graph_datasets/master/datasets''"

section \<open>The filesystem and the network\<close>

text \<open>
  What a file holds: text, a zip archive (its members as relative path and text; a member
  whose path ends with a slash is a directory entry), or an object written by
  \<^verbatim>\<open>torch.save\<close>. The class saves a record list and two counts, so these are the two kinds
  of saved object.
\<close>

datatype 'a content =
    Text string
  | Archive "(string \<times> string) list"
  | Saved_list "'a data list"
  | Saved_int int

datatype 'a node = Dir | File "'a content"

text \<open>
  The world the class runs in: the filesystem, as a map from path strings to nodes, and the
  log of the URLs fetched so far. Parent directories of files are not tracked: a file can
  be written at any path that is not a directory.
\<close>

record 'a world =
  files :: "string \<Rightarrow> 'a node option"
  fetched :: "string list"

text \<open>
  The environment that stays fixed during a run: what the remote hosts serve, and the parser
  \<^verbatim>\<open>torch_geometric.io.read_tu_data(folder, prefix)\<close>, which is not among the sources and is
  taken as a parameter. It reads the filesystem and returns the record list and the two
  attribute counts, or raises.
\<close>

record 'a env =
  net :: "string \<Rightarrow> 'a content option"
  read_tu_data ::
    "(string \<Rightarrow> 'a node option) \<Rightarrow> string \<Rightarrow> string \<Rightarrow> error + ('a data list \<times> int \<times> int)"

text \<open>\<open>under d p\<close>: the path \<open>p\<close> lies below the directory \<open>d\<close>.\<close>

definition under :: "string \<Rightarrow> string \<Rightarrow> bool" where
  "under d p = prefix (d @ ''/'') p"

definition exists :: "'a world \<Rightarrow> string \<Rightarrow> bool" where
  "exists w p = (files w p \<noteq> None)"

text \<open>\<^verbatim>\<open>os.unlink(path)\<close>\<close>

definition unlink :: "string \<Rightarrow> 'a world \<Rightarrow> error + 'a world" where
  "unlink p w =
     (case files w p of
        None \<Rightarrow> Inl FileNotFoundError
      | Some Dir \<Rightarrow> Inl IsADirectoryError
      | Some (File _) \<Rightarrow> Inr (w\<lparr>files := (files w)(p := None)\<rparr>))"

text \<open>\<^verbatim>\<open>shutil.rmtree(path)\<close>: the directory must exist; it goes with everything below it.\<close>

definition rmtree :: "string \<Rightarrow> 'a world \<Rightarrow> error + 'a world" where
  "rmtree d w =
     (case files w d of
        None \<Rightarrow> Inl FileNotFoundError
      | Some (File _) \<Rightarrow> Inl NotADirectoryError
      | Some Dir \<Rightarrow> Inr (w\<lparr>files := (\<lambda>p. if p = d \<or> under d p then None else files w p)\<rparr>))"

text \<open>
  \<^verbatim>\<open>os.rename(src, dst)\<close> of a file or a directory tree onto a destination that does not
  exist. \<^verbatim>\<open>download\<close> calls it right after \<^verbatim>\<open>rmtree(dst)\<close>, so the destination never
  exists there; the model raises \<^verbatim>\<open>OSError\<close> for an existing destination and for a move of
  a directory into itself.
\<close>

definition rename :: "string \<Rightarrow> string \<Rightarrow> 'a world \<Rightarrow> error + 'a world" where
  "rename src dst w =
     (case files w src of
        None \<Rightarrow> Inl FileNotFoundError
      | Some n \<Rightarrow>
          if files w dst \<noteq> None \<or> under src dst then Inl OSError
          else Inr (w\<lparr>files :=
                 (\<lambda>p. if p = dst then Some n
                      else if under dst p then files w (src @ drop (length dst) p)
                      else if p = src \<or> under src p then None
                      else files w p)\<rparr>))"

text \<open>\<^verbatim>\<open>makedirs(path)\<close>: creates the directory unless it is there.\<close>

definition makedirs :: "string \<Rightarrow> 'a world \<Rightarrow> error + 'a world" where
  "makedirs d w =
     (case files w d of
        None \<Rightarrow> Inr (w\<lparr>files := (files w)(d \<mapsto> Dir)\<rparr>)
      | Some Dir \<Rightarrow> Inr w
      | Some (File _) \<Rightarrow> Inl FileExistsError)"

text \<open>\<^verbatim>\<open>torch.save(obj, path)\<close> and \<^verbatim>\<open>torch.load(path)\<close>\<close>

definition torch_save :: "'a content \<Rightarrow> string \<Rightarrow> 'a world \<Rightarrow> error + 'a world" where
  "torch_save obj p w =
     (case files w p of
        Some Dir \<Rightarrow> Inl IsADirectoryError
      | _ \<Rightarrow> Inr (w\<lparr>files := (files w)(p \<mapsto> File obj)\<rparr>))"

definition torch_load :: "string \<Rightarrow> 'a world \<Rightarrow> error + 'a content" where
  "torch_load p w =
     (case files w p of
        None \<Rightarrow> Inl FileNotFoundError
      | Some Dir \<Rightarrow> Inl IsADirectoryError
      | Some (File (Text _)) \<Rightarrow> Inl UnpicklingError
      | Some (File (Archive _)) \<Rightarrow> Inl UnpicklingError
      | Some (File obj) \<Rightarrow> Inr obj)"

text \<open>
  Modelled from the spec: \<^verbatim>\<open>download_url(url, folder)\<close> is not among the sources. The spec
  has it fetch the archive from the URL; the source uses the path it returns as the
  archive file. The model stores the body in the folder under the last segment of the URL,
  logs the fetch and returns that path; a URL that serves nothing raises.
\<close>

definition last_segment :: "string \<Rightarrow> string" where
  "last_segment u = rev (takeWhile (\<lambda>c. c \<noteq> CHR ''/'') (rev u))"

definition download_url ::
  "'a env \<Rightarrow> string \<Rightarrow> string \<Rightarrow> 'a world \<Rightarrow> error + (string \<times> 'a world)" where
  "download_url e u folder w =
     (case net e u of
        None \<Rightarrow> Inl URLError
      | Some body \<Rightarrow>
          (let path = osp_join folder [last_segment u] in
           case files w path of
             Some Dir \<Rightarrow> Inl IsADirectoryError
           | _ \<Rightarrow> Inr (path, w\<lparr>files := (files w)(path \<mapsto> File body),
                               fetched := fetched w @ [u]\<rparr>)))"

text \<open>
  Modelled from the spec: \<^verbatim>\<open>extract_zip(path, folder)\<close> is not among the sources; the spec
  has it extract the archive. Each member is written below the folder, after the
  directories on its way.
\<close>

definition parent_dirs :: "string \<Rightarrow> string list" where
  "parent_dirs rel = map (\<lambda>i. take i rel) (filter (\<lambda>i. rel ! i = CHR ''/'') [1..<length rel])"

definition extract_member ::
  "string \<Rightarrow> (string \<Rightarrow> 'a node option) \<Rightarrow> string \<times> string \<Rightarrow> (string \<Rightarrow> 'a node option)" where
  "extract_member folder fs m =
     (let fs1 = foldl (\<lambda>g d. g(osp_join folder [d] \<mapsto> Dir)) fs (parent_dirs (fst m))
      in if endswith_sep (fst m) then fs1
         else fs1(osp_join folder [fst m] \<mapsto> File (Text (snd m))))"

definition extract_zip :: "string \<Rightarrow> string \<Rightarrow> 'a world \<Rightarrow> error + 'a world" where
  "extract_zip path folder w =
     (case files w path of
        None \<Rightarrow> Inl FileNotFoundError
      | Some Dir \<Rightarrow> Inl IsADirectoryError
      | Some (File (Archive ms)) \<Rightarrow> Inr (w\<lparr>files := foldl (extract_member folder) (files w) ms\<rparr>)
      | Some (File _) \<Rightarrow> Inl BadZipFile)"

section \<open>The lifecycle methods\<close>

text \<open>\<^verbatim>\<open>TUDataset.download\<close>, line by line.\<close>

definition download :: "'a env \<Rightarrow> 'a args \<Rightarrow> 'a world \<Rightarrow> error + 'a world" where
  "download e a w =
     (let u = (if cleaned a then cleaned_url else url);
          folder = osp_join (root a) [name a]
      in case download_url e (u @ ''/'' @ name a @ ''.zip'') folder w of
           Inl err \<Rightarrow> Inl err
         | Inr (path, w1) \<Rightarrow>
             (case extract_zip path folder w1 of
                Inl err \<Rightarrow> Inl err
              | Inr w2 \<Rightarrow>
                  (case unlink path w2 of
                     Inl err \<Rightarrow> Inl err
                   | Inr w3 \<Rightarrow>
                       (case rmtree (raw_dir a) w3 of
                          Inl err \<Rightarrow> Inl err
                        | Inr w4 \<Rightarrow> rename (osp_join folder [name a]) (raw_dir a) w4))))"

text \<open>
  \<^verbatim>\<open>TUDataset.process\<close>: parse, filter if a predicate is given, transform if a function is
  given, save the three artifacts. The predicate and the function are pure.
\<close>

definition apply_pre_filter :: "'a args \<Rightarrow> 'a data list \<Rightarrow> 'a data list" where
  "apply_pre_filter a ds = (case pre_filter a of None \<Rightarrow> ds | Some f \<Rightarrow> filter f ds)"

definition apply_pre_transform :: "'a args \<Rightarrow> 'a data list \<Rightarrow> 'a data list" where
  "apply_pre_transform a ds = (case pre_transform a of None \<Rightarrow> ds | Some t \<Rightarrow> map t ds)"

definition process :: "'a env \<Rightarrow> 'a args \<Rightarrow> 'a world \<Rightarrow> error + 'a world" where
  "process e a w =
     (case read_tu_data e (files w) (raw_dir a) (name a) of
        Inl err \<Rightarrow> Inl err
      | Inr (ds, nna, nea) \<Rightarrow>
          (let ds1 = apply_pre_filter a ds;
               ds2 = apply_pre_transform a ds1
           in case torch_save (Saved_list ds2) (processed_paths a ! 0) w of
                Inl err \<Rightarrow> Inl err
              | Inr w1 \<Rightarrow>
                  (case torch_save (Saved_int nna) (processed_paths a ! 1) w1 of
                     Inl err \<Rightarrow> Inl err
                   | Inr w2 \<Rightarrow> torch_save (Saved_int nea) (processed_paths a ! 2) w2)))"

text \<open>
  Modelled from the spec: the base class constructor, which is not among the sources, runs
  the two-stage cache. \<open>ensure_raw\<close>: if the required raw files are not all there, fetch
  them with \<^verbatim>\<open>download\<close>. \<open>ensure_processed\<close>: if the three processed artifacts are not all
  there, call \<open>ensure_raw\<close> first and then \<^verbatim>\<open>process\<close>. The spec has the fetch replace any
  existing raw directory and \<^verbatim>\<open>download\<close> removes that directory unconditionally, so the
  directory is created before the call when it is absent.
\<close>

definition files_exist :: "string list \<Rightarrow> 'a world \<Rightarrow> bool" where
  "files_exist ps w = list_all (exists w) ps"

definition ensure_raw :: "'a env \<Rightarrow> 'a args \<Rightarrow> 'a world \<Rightarrow> error + 'a world" where
  "ensure_raw e a w =
     (if files_exist (raw_paths a) w then Inr w
      else case makedirs (raw_dir a) w of
             Inl err \<Rightarrow> Inl err
           | Inr w1 \<Rightarrow> download e a w1)"

definition ensure_processed :: "'a env \<Rightarrow> 'a args \<Rightarrow> 'a world \<Rightarrow> error + 'a world" where
  "ensure_processed e a w =
     (if files_exist (processed_paths a) w then Inr w
      else case ensure_raw e a w of
             Inl err \<Rightarrow> Inl err
           | Inr w1 \<Rightarrow> process e a w1)"

text \<open>
  The reads of lines 66 to 68. The model is typed: the first artifact must hold a record
  list and the other two an integer.
\<close>

definition load_list :: "string \<Rightarrow> 'a world \<Rightarrow> error + 'a data list" where
  "load_list p w =
     (case torch_load p w of
        Inl err \<Rightarrow> Inl err
      | Inr (Saved_list ds) \<Rightarrow> Inr ds
      | Inr _ \<Rightarrow> Inl TypeError)"

definition load_int :: "string \<Rightarrow> 'a world \<Rightarrow> error + int" where
  "load_int p w =
     (case torch_load p w of
        Inl err \<Rightarrow> Inl err
      | Inr (Saved_int n) \<Rightarrow> Inr n
      | Inr _ \<Rightarrow> Inl TypeError)"

definition load :: "'a args \<Rightarrow> 'a world \<Rightarrow> error + 'a tu_dataset" where
  "load a w =
     (case load_list (processed_paths a ! 0) w of
        Inl err \<Rightarrow> Inl err
      | Inr ds \<Rightarrow>
          (case load_int (processed_paths a ! 1) w of
             Inl err \<Rightarrow> Inl err
           | Inr nna \<Rightarrow>
               (case load_int (processed_paths a ! 2) w of
                  Inl err \<Rightarrow> Inl err
                | Inr nea \<Rightarrow>
                    Inr \<lparr>data_list = ds, num_node_attributes = nna,
                         num_edge_attributes = nea\<rparr>)))"

text \<open>
  \<^verbatim>\<open>TUDataset.__init__\<close>: the base class constructor, the three reads, the stripping pass.
  It returns the world it leaves behind and the loaded dataset.
\<close>

definition init :: "'a env \<Rightarrow> 'a args \<Rightarrow> 'a world \<Rightarrow> error + ('a world \<times> 'a tu_dataset)" where
  "init e a w =
     (case ensure_processed e a w of
        Inl err \<Rightarrow> Inl err
      | Inr w1 \<Rightarrow>
          (case load a w1 of
             Inl err \<Rightarrow> Inl err
           | Inr self \<Rightarrow>
               (case strip_attributes a self of
                  Inl err \<Rightarrow> Inl err
                | Inr self' \<Rightarrow> Inr (w1, self'))))"

section \<open>Auxiliary notions for the statements\<close>

text \<open>What \<^verbatim>\<open>os.path.join\<close> puts in front of a relative component.\<close>

definition sep_after :: "string \<Rightarrow> string" where
  "sep_after p = (if p = [] \<or> endswith_sep p then p else p @ ''/'')"

text \<open>
  A dataset name that is one path segment: not empty and without a slash. The names the
  local variables of \<^verbatim>\<open>download\<close> stand for: the dataset folder, the URL of the archive,
  the path of the archive file and the directory the archive unpacks to. The raw
  directory's own name.
\<close>

definition plain_name :: "string \<Rightarrow> bool" where
  "plain_name n = (n \<noteq> [] \<and> CHR ''/'' \<notin> set n)"

definition dataset_folder :: "'a args \<Rightarrow> string" where
  "dataset_folder a = osp_join (root a) [name a]"

definition archive_url :: "'a args \<Rightarrow> string" where
  "archive_url a = (if cleaned a then cleaned_url else url) @ ''/'' @ name a @ ''.zip''"

definition archive_path :: "'a args \<Rightarrow> string" where
  "archive_path a = osp_join (dataset_folder a) [last_segment (archive_url a)]"

definition extracted_dir :: "'a args \<Rightarrow> string" where
  "extracted_dir a = osp_join (dataset_folder a) [name a]"

definition raw_name :: "'a args \<Rightarrow> string" where
  "raw_name a = ''raw'' @ (if cleaned a then ''_cleaned'' else [])"

text \<open>The paths of a cache variant: its raw and processed directories and all below them.\<close>

definition in_cache :: "'a args \<Rightarrow> string \<Rightarrow> bool" where
  "in_cache a p =
     (p = raw_dir a \<or> under (raw_dir a) p \<or> p = processed_dir a \<or> under (processed_dir a) p)"

section \<open>A small dataset\<close>

text \<open>
  Two graphs whose node matrices have two attribute columns followed by one label column,
  and whose edge values have one attribute column followed by one label column.
\<close>

definition ex_graph1 :: "nat data" where
  "ex_graph1 =
     \<lparr>data_x = Some \<lparr>ncols = 3, entries = [[5, 7, 1], [6, 8, 1]]\<rparr>,
      data_adj = \<lparr>row = [0, 1], col = [1, 0],
                  storage_value = Some \<lparr>ncols = 2, entries = [[9, 1], [9, 1]]\<rparr>\<rparr>,
      data_y = Some 1\<rparr>"

definition ex_graph2 :: "nat data" where
  "ex_graph2 =
     \<lparr>data_x = Some \<lparr>ncols = 3, entries = [[4, 2, 1]]\<rparr>,
      data_adj = \<lparr>row = [], col = [], storage_value = Some \<lparr>ncols = 2, entries = []\<rparr>\<rparr>,
      data_y = Some 0\<rparr>"

text \<open>The same graphs with the attribute columns of nodes and edges stripped.\<close>

definition ex_stripped1 :: "nat data" where
  "ex_stripped1 =
     \<lparr>data_x = Some \<lparr>ncols = 1, entries = [[1], [1]]\<rparr>,
      data_adj = \<lparr>row = [0, 1], col = [1, 0],
                  storage_value = Some \<lparr>ncols = 1, entries = [[1], [1]]\<rparr>\<rparr>,
      data_y = Some 1\<rparr>"

definition ex_stripped2 :: "nat data" where
  "ex_stripped2 =
     \<lparr>data_x = Some \<lparr>ncols = 1, entries = [[1]]\<rparr>,
      data_adj = \<lparr>row = [], col = [], storage_value = Some \<lparr>ncols = 1, entries = []\<rparr>\<rparr>,
      data_y = Some 0\<rparr>"

definition ex_archive :: "(string \<times> string) list" where
  "ex_archive = [(''MUTAG/MUTAG_A.txt'', ''1, 2''), (''MUTAG/MUTAG_graph_indicator.txt'', ''1'')]"

text \<open>
  An environment: the canonical host serves the archive, and a parser that needs the two
  raw files and returns the two graphs with two node attributes and one edge attribute.
\<close>

definition ex_env :: "nat env" where
  "ex_env =
     \<lparr>net = (\<lambda>u. if u = url @ ''/MUTAG.zip'' then Some (Archive ex_archive) else None),
      read_tu_data = (\<lambda>fs folder pre.
        if fs (folder @ ''/'' @ pre @ ''_A.txt'') = None \<or>
           fs (folder @ ''/'' @ pre @ ''_graph_indicator.txt'') = None
        then Inl FileNotFoundError
        else Inr ([ex_graph1, ex_graph2], 2, 1))\<rparr>"

definition ex_args :: "nat args" where
  "ex_args = \<lparr>root = ''data'', name = ''MUTAG'', pre_transform = None, pre_filter = None,
     use_node_attributes = False, use_edge_attributes = False, cleaned = False\<rparr>"

definition has_features :: "nat data \<Rightarrow> bool" where
  "has_features d = (data_x d \<noteq> None)"

definition reject_all :: "nat data \<Rightarrow> bool" where
  "reject_all d = False"

definition drop_features :: "nat data \<Rightarrow> nat data" where
  "drop_features d = d\<lparr>data_x := None\<rparr>"

definition keep_last_column :: "nat data \<Rightarrow> nat data" where
  "keep_last_column d = d\<lparr>data_x := map_option (slice_cols (- 1)) (data_x d)\<rparr>"


text \<open>The cache with the raw files only, and after \<^verbatim>\<open>process\<close> has run on it.\<close>

definition ex_raw_world :: "nat world" where
  "ex_raw_world =
     \<lparr>files = [''data/MUTAG/raw'' \<mapsto> Dir,
               ''data/MUTAG/raw/MUTAG_A.txt'' \<mapsto> File (Text ''1, 2''),
               ''data/MUTAG/raw/MUTAG_graph_indicator.txt'' \<mapsto> File (Text ''1'')],
      fetched = []\<rparr>"

definition ex_saved :: "nat data list \<Rightarrow> int \<Rightarrow> int \<Rightarrow> nat world" where
  "ex_saved ds nna nea =
     \<lparr>files = [''data/MUTAG/raw'' \<mapsto> Dir,
               ''data/MUTAG/raw/MUTAG_A.txt'' \<mapsto> File (Text ''1, 2''),
               ''data/MUTAG/raw/MUTAG_graph_indicator.txt'' \<mapsto> File (Text ''1''),
               ''data/MUTAG/processed/data.pt'' \<mapsto> File (Saved_list ds),
               ''data/MUTAG/processed/num_node_attributes.pt'' \<mapsto> File (Saved_int nna),
               ''data/MUTAG/processed/num_edge_attributes.pt'' \<mapsto> File (Saved_int nea)],
      fetched = []\<rparr>"

definition ex_processed_world :: "nat world" where
  "ex_processed_world = ex_saved [ex_graph1, ex_graph2] 2 1"


text \<open>A cache that holds a raw directory with a stale file and nothing else.\<close>

definition ex_stale_world :: "nat world" where
  "ex_stale_world =
     \<lparr>files = [''data/MUTAG/raw'' \<mapsto> Dir,
               ''data/MUTAG/raw/old.txt'' \<mapsto> File (Text ''stale'')],
      fetched = []\<rparr>"

text \<open>What the constructor holds in memory after loading that cache with both flags off.\<close>

definition ex_loaded :: "nat tu_dataset" where
  "ex_loaded =
     \<lparr>data_list = [ex_stripped1, ex_stripped2], num_node_attributes = 2,
      num_edge_attributes = 1\<rparr>"

section \<open>Paths: basic facts\<close>

lemma join2_plain: "\<not> startswith_sep b \<Longrightarrow> join2 p b = sep_after p @ b"
  by (simp add: join2_def sep_after_def)

lemma osp_join_single: "\<not> startswith_sep b \<Longrightarrow> osp_join p [b] = sep_after p @ b"
  by (simp add: osp_join_def join2_plain)

lemma osp_join_pair:
  "\<not> startswith_sep c \<Longrightarrow> osp_join r [n, c] = sep_after (join2 r n) @ c"
  by (simp add: osp_join_def join2_plain)

lemma raw_dir_eq:
  "raw_dir a =
     sep_after (join2 (root a) (name a)) @ (if cleaned a then ''raw_cleaned'' else ''raw'')"
  by (simp add: raw_dir_def osp_join_pair startswith_sep_def)

lemma processed_dir_eq:
  "processed_dir a =
     sep_after (join2 (root a) (name a)) @
       (if cleaned a then ''processed_cleaned'' else ''processed'')"
  by (simp add: processed_dir_def osp_join_pair startswith_sep_def)

lemma raw_dir_not_sep: "\<not> endswith_sep (raw_dir a)" "raw_dir a \<noteq> []"
  by (simp_all add: raw_dir_eq endswith_sep_def)

lemma processed_dir_not_sep: "\<not> endswith_sep (processed_dir a)" "processed_dir a \<noteq> []"
  by (simp_all add: processed_dir_eq endswith_sep_def)

lemma processed_paths_eq:
  "processed_paths a =
     [processed_dir a @ ''/data.pt'', processed_dir a @ ''/num_node_attributes.pt'',
      processed_dir a @ ''/num_edge_attributes.pt'']"
  using processed_dir_not_sep [of a]
  by (simp add: processed_paths_def processed_file_names_def osp_join_single startswith_sep_def
      sep_after_def)

lemma processed_paths_nth:
  "processed_paths a ! 0 = processed_dir a @ ''/data.pt''"
  "processed_paths a ! 1 = processed_dir a @ ''/num_node_attributes.pt''"
  "processed_paths a ! 2 = processed_dir a @ ''/num_edge_attributes.pt''"
  by (simp_all add: processed_paths_eq)

lemma under_same_base:
  "under (q @ c) p \<Longrightarrow> under (q @ d) p \<Longrightarrow>
     prefix (c @ ''/'') (d @ ''/'') \<or> prefix (d @ ''/'') (c @ ''/'')"
  using prefix_same_cases [of "q @ c @ ''/''" p "q @ d @ ''/''"]
  by (auto simp: under_def)

lemma not_under_both:
  "\<not> prefix (c @ ''/'') (d @ ''/'') \<Longrightarrow> \<not> prefix (d @ ''/'') (c @ ''/'') \<Longrightarrow>
   \<not> (under (q @ c) p \<and> under (q @ d) p)"
  using under_same_base [of q c p d] by blast

lemma under_append: "under (q @ c) (q @ d) = prefix (c @ ''/'') d"
  by (simp add: under_def)

lemma ex_fields:
  "root ex_args = ''data''" "name ex_args = ''MUTAG''" "pre_transform ex_args = None"
  "pre_filter ex_args = None" "use_node_attributes ex_args = False"
  "use_edge_attributes ex_args = False" "cleaned ex_args = False"
  by (simp_all add: ex_args_def)

lemma ex_dirs:
  "raw_dir (ex_args\<lparr>pre_transform := t, pre_filter := f, use_node_attributes := un,
      use_edge_attributes := ue\<rparr>) = ''data/MUTAG/raw''"
  "processed_dir (ex_args\<lparr>pre_transform := t, pre_filter := f, use_node_attributes := un,
      use_edge_attributes := ue\<rparr>) = ''data/MUTAG/processed''"
  "raw_dir ex_args = ''data/MUTAG/raw''"
  "processed_dir ex_args = ''data/MUTAG/processed''"
  by (simp_all add: raw_dir_def processed_dir_def ex_args_def osp_join_def join2_def
      startswith_sep_def endswith_sep_def)

section \<open>Saving and loading\<close>

lemma torch_save_Inr:
  "torch_save obj p w = Inr w' \<Longrightarrow>
     files w' = (files w)(p \<mapsto> File obj) \<and> fetched w' = fetched w \<and> files w p \<noteq> Some Dir"
  by (auto simp: torch_save_def split: option.splits node.splits)

lemma torch_save_ok:
  "files w p \<noteq> Some Dir \<Longrightarrow>
     torch_save obj p w = Inr (w\<lparr>files := (files w)(p \<mapsto> File obj)\<rparr>)"
  by (auto simp: torch_save_def split: option.splits node.splits)

lemma load_list_saved: "files w p = Some (File (Saved_list ds)) \<Longrightarrow> load_list p w = Inr ds"
  by (simp add: load_list_def torch_load_def)

lemma load_int_saved: "files w p = Some (File (Saved_int n)) \<Longrightarrow> load_int p w = Inr n"
  by (simp add: load_int_def torch_load_def)

lemma load_list_exists: "load_list p w = Inr ds \<Longrightarrow> exists w p"
  by (auto simp: load_list_def torch_load_def exists_def split: option.splits sum.splits)

lemma load_int_exists: "load_int p w = Inr n \<Longrightarrow> exists w p"
  by (auto simp: load_int_def torch_load_def exists_def split: option.splits sum.splits)

lemma load_exists: "load a w = Inr self \<Longrightarrow> files_exist (processed_paths a) w"
  by (auto simp: load_def files_exist_def processed_paths_eq
      split: sum.splits dest: load_list_exists load_int_exists)

section \<open>What \<^verbatim>\<open>process\<close> writes\<close>

lemma process_files:
  assumes "read_tu_data e (files w) (raw_dir a) (name a) = Inr (ds, nna, nea)"
    and "process e a w = Inr w'"
  shows "files w' = (files w)
           (processed_paths a ! 0 \<mapsto>
              File (Saved_list (apply_pre_transform a (apply_pre_filter a ds))),
            processed_paths a ! 1 \<mapsto> File (Saved_int nna),
            processed_paths a ! 2 \<mapsto> File (Saved_int nea))"
    and "fetched w' = fetched w"
  using assms
  by (auto simp: process_def Let_def split: sum.splits dest!: torch_save_Inr)

lemma process_ok:
  assumes "read_tu_data e (files w) (raw_dir a) (name a) = Inr (ds, nna, nea)"
    and "\<forall>p \<in> set (processed_paths a). files w p \<noteq> Some Dir"
  shows "\<exists>w'. process e a w = Inr w'"
  using assms
  by (simp add: process_def Let_def torch_save_ok processed_paths_eq)

lemma process_persisted:
  assumes "read_tu_data e (files w) (raw_dir a) (name a) = Inr (ds, nna, nea)"
    and "process e a w = Inr w'"
  shows "load_list (processed_paths a ! 0) w' =
           Inr (apply_pre_transform a (apply_pre_filter a ds))"
    and "load_int (processed_paths a ! 1) w' = Inr nna"
    and "load_int (processed_paths a ! 2) w' = Inr nea"
proof -
  have f: "files w' = (files w)
           (processed_dir a @ ''/data.pt'' \<mapsto>
              File (Saved_list (apply_pre_transform a (apply_pre_filter a ds))),
            processed_dir a @ ''/num_node_attributes.pt'' \<mapsto> File (Saved_int nna),
            processed_dir a @ ''/num_edge_attributes.pt'' \<mapsto> File (Saved_int nea))"
    using process_files(1) [OF assms] unfolding processed_paths_nth .
  show "load_list (processed_paths a ! 0) w' =
           Inr (apply_pre_transform a (apply_pre_filter a ds))"
    unfolding processed_paths_nth by (rule load_list_saved) (simp add: f)
  show "load_int (processed_paths a ! 1) w' = Inr nna"
    unfolding processed_paths_nth by (rule load_int_saved) (simp add: f)
  show "load_int (processed_paths a ! 2) w' = Inr nea"
    unfolding processed_paths_nth by (rule load_int_saved) (simp add: f)
qed

lemmas ex_path_simps = raw_dir_def processed_dir_def osp_join_def join2_def startswith_sep_def
  endswith_sep_def processed_paths_eq ex_fields

lemma ex_parse:
  "read_tu_data ex_env (files ex_raw_world) ''data/MUTAG/raw'' ''MUTAG'' =
     Inr ([ex_graph1, ex_graph2], 2, 1)"
  by (simp add: ex_env_def ex_raw_world_def)

lemma ex_no_dirs:
  "files ex_raw_world ''data/MUTAG/processed/data.pt'' = None"
  "files ex_raw_world ''data/MUTAG/processed/num_node_attributes.pt'' = None"
  "files ex_raw_world ''data/MUTAG/processed/num_edge_attributes.pt'' = None"
  by (simp_all add: ex_raw_world_def)

lemma ex_saved_raw:
  "ex_saved ds nna nea =
     ex_raw_world\<lparr>files := (files ex_raw_world)
       (''data/MUTAG/processed/data.pt'' \<mapsto> File (Saved_list ds),
        ''data/MUTAG/processed/num_node_attributes.pt'' \<mapsto> File (Saved_int nna),
        ''data/MUTAG/processed/num_edge_attributes.pt'' \<mapsto> File (Saved_int nea))\<rparr>"
  by (simp add: ex_saved_def ex_raw_world_def)

lemma ex_process:
  assumes "root a = ''data''" "name a = ''MUTAG''" "\<not> cleaned a"
  shows "process ex_env a ex_raw_world =
     Inr (ex_saved (apply_pre_transform a (apply_pre_filter a [ex_graph1, ex_graph2])) 2 1)"
  using assms
  by (simp add: process_def raw_dir_def processed_dir_def osp_join_def join2_def
      startswith_sep_def endswith_sep_def processed_paths_eq ex_parse ex_no_dirs
      torch_save_def ex_saved_raw)

text \<open>
  C3: when \<^verbatim>\<open>process\<close> runs (the parser returns and no processed path is a directory), it
  returns, and the record list it persists is the parsed list, filtered by \<^verbatim>\<open>pre_filter\<close>
  if one is given, and after that mapped by \<^verbatim>\<open>pre_transform\<close> if one is given. With both
  given it is \<open>map t (filter f ds)\<close>: the filter sees the untransformed records.
\<close>

theorem process_filter_then_transform:
  assumes "read_tu_data e (files w) (raw_dir a) (name a) = Inr (ds, nna, nea)"
    and "\<forall>p \<in> set (processed_paths a). files w p \<noteq> Some Dir"
  shows "\<exists>w'. process e a w = Inr w' \<and>
           load_list (processed_paths a ! 0) w' =
             Inr (case (pre_filter a, pre_transform a) of
                    (None, None) \<Rightarrow> ds
                  | (Some f, None) \<Rightarrow> filter f ds
                  | (None, Some t) \<Rightarrow> map t ds
                  | (Some f, Some t) \<Rightarrow> map t (filter f ds))"
proof -
  obtain w' where p: "process e a w = Inr w'"
    using process_ok [OF assms] by blast
  have "load_list (processed_paths a ! 0) w' =
          Inr (apply_pre_transform a (apply_pre_filter a ds))"
    using process_persisted(1) [OF assms(1) p] .
  then show ?thesis
    using p by (auto simp: apply_pre_transform_def apply_pre_filter_def split: option.splits)
qed

theorem process_filter_then_transform_witness:
  "\<exists>w'. process ex_env (ex_args\<lparr>pre_transform := Some drop_features,
                               pre_filter := Some has_features\<rparr>) ex_raw_world = Inr w' \<and>
     load_list ''data/MUTAG/processed/data.pt'' w' =
       Inr [drop_features ex_graph1, drop_features ex_graph2] \<and>
     filter has_features (map drop_features [ex_graph1, ex_graph2]) = []"
  using process_filter_then_transform [of ex_env ex_raw_world
      "ex_args\<lparr>pre_transform := Some drop_features, pre_filter := Some has_features\<rparr>"
      "[ex_graph1, ex_graph2]" 2 1]
  by (simp add: ex_path_simps ex_parse ex_no_dirs
      has_features_def drop_features_def ex_graph1_def ex_graph2_def)

text \<open>
  C8: when \<^verbatim>\<open>process\<close> runs with a \<^verbatim>\<open>pre_filter\<close> that rejects every parsed record, the
  record list it persists is empty, whatever \<^verbatim>\<open>pre_transform\<close> is.
\<close>

theorem rejecting_filter_persists_empty_list:
  assumes "read_tu_data e (files w) (raw_dir a) (name a) = Inr (ds, nna, nea)"
    and "\<forall>p \<in> set (processed_paths a). files w p \<noteq> Some Dir"
    and "pre_filter a = Some f"
    and "\<forall>d \<in> set ds. \<not> f d"
  shows "\<exists>w'. process e a w = Inr w' \<and> load_list (processed_paths a ! 0) w' = Inr []"
proof -
  obtain w' where p: "process e a w = Inr w'"
    using process_ok [OF assms(1,2)] by blast
  have "filter f ds = []"
    using assms(4) by (simp add: filter_empty_conv)
  then have "apply_pre_transform a (apply_pre_filter a ds) = []"
    using assms(3) by (simp add: apply_pre_transform_def apply_pre_filter_def split: option.splits)
  then show ?thesis
    using p process_persisted(1) [OF assms(1) p] by simp
qed

theorem rejecting_filter_persists_empty_list_witness:
  "\<exists>w'. process ex_env (ex_args\<lparr>pre_transform := Some drop_features,
                               pre_filter := Some reject_all\<rparr>) ex_raw_world = Inr w' \<and>
     load_list ''data/MUTAG/processed/data.pt'' w' = Inr []"
  using rejecting_filter_persists_empty_list [of ex_env ex_raw_world
      "ex_args\<lparr>pre_transform := Some drop_features, pre_filter := Some reject_all\<rparr>"
      "[ex_graph1, ex_graph2]" 2 1 reject_all]
  by (simp add: ex_path_simps ex_parse ex_no_dirs reject_all_def)

text \<open>
  C9: when \<^verbatim>\<open>process\<close> runs, the two counts it persists are the counts the parser returned,
  whatever \<^verbatim>\<open>pre_filter\<close> and \<^verbatim>\<open>pre_transform\<close> are. So after a \<^verbatim>\<open>pre_transform\<close> that
  changes the width of the node matrices the persisted count still describes the parse, not
  the persisted records.
\<close>

theorem process_persists_parser_counts:
  assumes "read_tu_data e (files w) (raw_dir a) (name a) = Inr (ds, nna, nea)"
    and "\<forall>p \<in> set (processed_paths a). files w p \<noteq> Some Dir"
  shows "\<exists>w'. process e a w = Inr w' \<and>
           load_int (processed_paths a ! 1) w' = Inr nna \<and>
           load_int (processed_paths a ! 2) w' = Inr nea"
proof -
  obtain w' where p: "process e a w = Inr w'"
    using process_ok [OF assms] by blast
  show ?thesis
    using p process_persisted(2,3) [OF assms(1) p] by simp
qed

theorem process_persists_parser_counts_witness:
  "\<exists>w'. process ex_env (ex_args\<lparr>pre_transform := Some drop_features\<rparr>) ex_raw_world = Inr w' \<and>
     load_int ''data/MUTAG/processed/num_node_attributes.pt'' w' = Inr 2 \<and>
     load_int ''data/MUTAG/processed/num_edge_attributes.pt'' w' = Inr 1 \<and>
     load_list ''data/MUTAG/processed/data.pt'' w' =
       Inr [drop_features ex_graph1, drop_features ex_graph2] \<and>
     map (\<lambda>d. width (data_x d)) [drop_features ex_graph1, drop_features ex_graph2] = [0, 0] \<and>
     map (\<lambda>d. width (data_x d)) [ex_graph1, ex_graph2] = [3, 3]"
proof -
  let ?a = "ex_args\<lparr>pre_transform := Some drop_features\<rparr>"
  have r: "read_tu_data ex_env (files ex_raw_world) (raw_dir ?a) (name ?a) =
      Inr ([ex_graph1, ex_graph2], 2, 1)"
    by (simp add: ex_path_simps ex_parse)
  have d: "\<forall>p \<in> set (processed_paths ?a). files ex_raw_world p \<noteq> Some Dir"
    by (simp add: ex_path_simps ex_no_dirs)
  obtain w' where p: "process ex_env ?a ex_raw_world = Inr w'"
    and c: "load_int (processed_paths ?a ! 1) w' = Inr 2"
      "load_int (processed_paths ?a ! 2) w' = Inr 1"
    using process_persists_parser_counts [OF r d] by blast
  have l: "load_list (processed_paths ?a ! 0) w' = Inr [drop_features ex_graph1, drop_features ex_graph2]"
    using process_persisted(1) [OF r p]
    by (simp add: apply_pre_transform_def apply_pre_filter_def ex_fields)
  have "map (\<lambda>d. width (data_x d)) [drop_features ex_graph1, drop_features ex_graph2] = [0, 0]"
    "map (\<lambda>d. width (data_x d)) [ex_graph1, ex_graph2] = [3, 3]"
    by (simp_all add: width_def drop_features_def ex_graph1_def ex_graph2_def)
  then show ?thesis
    using p c l by (simp add: ex_path_simps)
qed

section \<open>Loading twice\<close>

text \<open>
  C4: when the constructor returns, constructing again with the same arguments on the
  filesystem it left behind returns too, with the same dataset (so the same in-memory record
  list) and the filesystem unchanged.
\<close>

theorem init_twice_same_dataset:
  assumes "init e a w = Inr (w1, self)"
  shows "init e a w1 = Inr (w1, self)"
proof -
  from assms obtain p where l: "load a w1 = Inr p" and st: "strip_attributes a p = Inr self"
    by (auto simp: init_def split: sum.splits)
  have "ensure_processed e a w1 = Inr w1"
    using load_exists [OF l] by (simp add: ensure_processed_def)
  then show ?thesis using l st by (simp add: init_def)
qed

section \<open>The two cache variants\<close>

lemma in_cache_disjoint:
  assumes "root a = root b" "name a = name b" "cleaned a" "\<not> cleaned b"
  shows "\<not> (in_cache a p \<and> in_cache b p)"
proof -
  let ?q = "sep_after (join2 (root a) (name a))"
  have a: "raw_dir a = ?q @ ''raw_cleaned''" "processed_dir a = ?q @ ''processed_cleaned''"
    using assms by (simp_all add: raw_dir_eq processed_dir_eq)
  have b: "raw_dir b = ?q @ ''raw''" "processed_dir b = ?q @ ''processed''"
    using assms by (simp_all add: raw_dir_eq processed_dir_eq)
  have u: "\<And>c d. \<not> prefix (c @ ''/'') (d @ ''/'') \<Longrightarrow> \<not> prefix (d @ ''/'') (c @ ''/'') \<Longrightarrow>
      \<not> (under (?q @ c) p \<and> under (?q @ d) p)"
    by (rule not_under_both)
  have "\<not> (under (?q @ ''raw_cleaned'') p \<and> under (?q @ ''raw'') p)"
    "\<not> (under (?q @ ''raw_cleaned'') p \<and> under (?q @ ''processed'') p)"
    "\<not> (under (?q @ ''processed_cleaned'') p \<and> under (?q @ ''raw'') p)"
    "\<not> (under (?q @ ''processed_cleaned'') p \<and> under (?q @ ''processed'') p)"
    by (rule u; simp)+
  then show ?thesis
    unfolding in_cache_def a b by (auto simp: under_append)
qed

text \<open>
  C7: for every root and name, the raw and processed directories of the cleaned variant
  differ from those of the other variant, no path lies in or below a directory of both
  variants, and the processed artifacts of the two variants are different files.
\<close>

theorem cleaned_variants_are_disjoint:
  assumes "root a = root b" "name a = name b" "cleaned a" "\<not> cleaned b"
  shows "raw_dir a \<noteq> raw_dir b \<and> processed_dir a \<noteq> processed_dir b \<and>
         raw_dir a \<noteq> processed_dir b \<and> processed_dir a \<noteq> raw_dir b \<and>
         (\<forall>p. \<not> (in_cache a p \<and> in_cache b p)) \<and>
         set (processed_paths a) \<inter> set (processed_paths b) = {}"
proof -
  have "raw_dir a \<noteq> raw_dir b" "processed_dir a \<noteq> processed_dir b"
    "raw_dir a \<noteq> processed_dir b" "processed_dir a \<noteq> raw_dir b"
    using assms by (simp_all add: raw_dir_eq processed_dir_eq)
  moreover have "\<forall>p. \<not> (in_cache a p \<and> in_cache b p)"
    using in_cache_disjoint [OF assms] by blast
  moreover have "set (processed_paths a) \<inter> set (processed_paths b) = {}"
    using assms by (simp add: processed_paths_eq processed_dir_eq)
  ultimately show ?thesis by blast
qed

theorem cleaned_variants_are_disjoint_witness:
  "raw_dir (ex_args\<lparr>cleaned := True\<rparr>) = ''data/MUTAG/raw_cleaned'' \<and>
   raw_dir ex_args = ''data/MUTAG/raw'' \<and>
   processed_dir (ex_args\<lparr>cleaned := True\<rparr>) = ''data/MUTAG/processed_cleaned'' \<and>
   processed_dir ex_args = ''data/MUTAG/processed'' \<and>
   \<not> (in_cache (ex_args\<lparr>cleaned := True\<rparr>) ''data/MUTAG/raw/MUTAG_A.txt'' \<and>
      in_cache ex_args ''data/MUTAG/raw/MUTAG_A.txt'') \<and>
   in_cache ex_args ''data/MUTAG/raw/MUTAG_A.txt'' \<and>
   set (processed_paths (ex_args\<lparr>cleaned := True\<rparr>)) \<inter> set (processed_paths ex_args) = {}"
  using cleaned_variants_are_disjoint [of "ex_args\<lparr>cleaned := True\<rparr>" ex_args]
  by (simp add: ex_path_simps in_cache_def under_def)

section \<open>The stripping pass\<close>

lemma strip_x_Inr:
  "strip_x k d = Inr d' \<Longrightarrow>
     data_adj d' = data_adj d \<and> data_y d' = data_y d \<and>
     (\<exists>m. data_x d = Some m \<and> data_x d' = Some (slice_cols k m))"
  by (auto simp: strip_x_def split: option.splits)

lemma strip_value_Inr:
  "strip_value k d = Inr d' \<Longrightarrow>
     data_x d' = data_x d \<and> data_y d' = data_y d \<and>
     row (data_adj d') = row (data_adj d) \<and> col (data_adj d') = col (data_adj d) \<and>
     (\<exists>v. storage_value (data_adj d) = Some v \<and>
          storage_value (data_adj d') = Some (slice_cols k v))"
  by (auto simp: strip_value_def split: option.splits)

lemma for_each_all2:
  "for_each f ds = Inr ds' \<Longrightarrow> list_all2 (\<lambda>d d'. f d = Inr d') ds ds'"
  by (induction ds arbitrary: ds') (auto split: sum.splits)

lemma for_each_preserves:
  assumes "for_each f ds = Inr ds'" and "\<And>d d'. f d = Inr d' \<Longrightarrow> g d' = g d"
  shows "map g ds' = map g ds"
  using for_each_all2 [OF assms(1)] assms(2)
  by (induction ds ds' rule: list_all2_induct) auto

lemma for_each_nonempty: "for_each f ds = Inr ds' \<Longrightarrow> (ds' = []) = (ds = [])"
  by (cases ds) (auto split: sum.splits)

lemma width_slice_cols: "width (Some (slice_cols k m)) = int (ncols m - slice_start k (ncols m))"
  by (simp add: width_def slice_cols_def)

lemma wf_slice_cols: "wf_matrix m \<Longrightarrow> wf_matrix (slice_cols k m)"
  by (auto simp: wf_matrix_def slice_cols_def list_all_iff)

lemma strip_attributes_Inr:
  assumes "strip_attributes a p = Inr self"
  shows "num_node_attributes self = num_node_attributes p"
    and "num_edge_attributes self = num_edge_attributes p"
    and "(data_list self = []) = (data_list p = [])"
    and "use_node_attributes a \<or> num_node_attributes p \<le> 0 \<Longrightarrow>
           map data_x (data_list self) = map data_x (data_list p)"
    and "use_edge_attributes a \<or> num_edge_attributes p \<le> 0 \<Longrightarrow>
           map data_adj (data_list self) = map data_adj (data_list p)"
proof -
  let ?n = "0 < num_node_attributes p \<and> \<not> use_node_attributes a"
  let ?e = "0 < num_edge_attributes p \<and> \<not> use_edge_attributes a"
  obtain ds1 where
    n: "(if ?n then for_each (strip_x (num_node_attributes p)) (data_list p)
         else Inr (data_list p)) = Inr ds1"
    and e: "(if ?e then for_each (strip_value (num_edge_attributes p)) ds1 else Inr ds1) =
         Inr (data_list self)"
    and s: "self = p\<lparr>data_list := data_list self\<rparr>"
    using assms by (auto simp: strip_attributes_def split: sum.splits)
  show "num_node_attributes self = num_node_attributes p"
    "num_edge_attributes self = num_edge_attributes p"
    by (subst s, simp)+
  have x2: "map data_x (data_list self) = map data_x ds1"
    using e for_each_preserves [of "strip_value (num_edge_attributes p)" ds1 "data_list self" data_x]
    by (auto split: if_splits dest: strip_value_Inr)
  have a1: "map data_adj ds1 = map data_adj (data_list p)"
    using n for_each_preserves [of "strip_x (num_node_attributes p)" "data_list p" ds1 data_adj]
    by (auto split: if_splits dest: strip_x_Inr)
  have "(ds1 = []) = (data_list p = [])"
    using n by (auto split: if_splits dest: for_each_nonempty)
  moreover have "(data_list self = []) = (ds1 = [])"
    using e by (auto split: if_splits dest: for_each_nonempty)
  ultimately show "(data_list self = []) = (data_list p = [])" by simp
  show "map data_x (data_list self) = map data_x (data_list p)"
    if "use_node_attributes a \<or> num_node_attributes p \<le> 0"
    using that n x2 by (auto split: if_splits)
  show "map data_adj (data_list self) = map data_adj (data_list p)"
    if "use_edge_attributes a \<or> num_edge_attributes p \<le> 0"
    using that e a1 by (auto split: if_splits)
qed

lemma init_Inr:
  assumes "init e a w = Inr (w', self)"
  shows "\<exists>p. load a w' = Inr p \<and> strip_attributes a p = Inr self"
  using assms by (auto simp: init_def split: sum.splits)

text \<open>
  C10: when the constructor returns and the persisted node attribute count is 0, every
  record's node feature matrix is the persisted one, whatever \<^verbatim>\<open>use_node_attributes\<close> is;
  when the persisted edge attribute count is 0, every record's adjacency, with its edge
  values, is the persisted one, whatever \<^verbatim>\<open>use_edge_attributes\<close> is; when both are 0 the
  record list is the persisted list.
\<close>

theorem zero_count_leaves_records_unchanged:
  assumes "init e a w = Inr (w', self)" and "load a w' = Inr p"
  shows "(num_node_attributes p = 0 \<longrightarrow>
            map data_x (data_list self) = map data_x (data_list p)) \<and>
         (num_edge_attributes p = 0 \<longrightarrow>
            map data_adj (data_list self) = map data_adj (data_list p)) \<and>
         (num_node_attributes p = 0 \<and> num_edge_attributes p = 0 \<longrightarrow>
            data_list self = data_list p)"
proof -
  have s: "strip_attributes a p = Inr self"
    using init_Inr [OF assms(1)] assms(2) by auto
  have "num_node_attributes p = 0 \<and> num_edge_attributes p = 0 \<longrightarrow> data_list self = data_list p"
    using s by (auto simp: strip_attributes_def)
  then show ?thesis
    using strip_attributes_Inr(4,5) [OF s] by simp
qed

section \<open>The constructor on the small dataset\<close>

lemma ex_paths:
  assumes "root a = ''data''" "name a = ''MUTAG''" "\<not> cleaned a"
  shows "raw_dir a = ''data/MUTAG/raw''"
    and "processed_paths a =
      [''data/MUTAG/processed/data.pt'', ''data/MUTAG/processed/num_node_attributes.pt'',
       ''data/MUTAG/processed/num_edge_attributes.pt'']"
    and "raw_paths a =
      [''data/MUTAG/raw/MUTAG_A.txt'', ''data/MUTAG/raw/MUTAG_graph_indicator.txt'']"
  using assms
  by (simp_all add: raw_dir_def processed_dir_def osp_join_def join2_def startswith_sep_def
      endswith_sep_def processed_paths_eq raw_paths_def raw_file_names_def)

lemma ex_load:
  assumes "root a = ''data''" "name a = ''MUTAG''" "\<not> cleaned a"
  shows "load a (ex_saved ds nna nea) =
     Inr \<lparr>data_list = ds, num_node_attributes = nna, num_edge_attributes = nea\<rparr>"
  by (simp add: load_def load_list_def load_int_def torch_load_def ex_paths(2) [OF assms]
      ex_saved_def)

lemma ex_init_saved:
  assumes "root a = ''data''" "name a = ''MUTAG''" "\<not> cleaned a"
  shows "init ex_env a (ex_saved ds nna nea) =
     (case strip_attributes a
             \<lparr>data_list = ds, num_node_attributes = nna, num_edge_attributes = nea\<rparr> of
        Inl err \<Rightarrow> Inl err
      | Inr self \<Rightarrow> Inr (ex_saved ds nna nea, self))"
proof -
  have "files_exist (processed_paths a) (ex_saved ds nna nea)"
    by (simp add: files_exist_def exists_def ex_paths(2) [OF assms] ex_saved_def)
  then show ?thesis
    by (simp add: init_def ensure_processed_def ex_load [OF assms])
qed

lemma ex_init_raw:
  assumes "root a = ''data''" "name a = ''MUTAG''" "\<not> cleaned a"
  shows "init ex_env a ex_raw_world =
     init ex_env a
       (ex_saved (apply_pre_transform a (apply_pre_filter a [ex_graph1, ex_graph2])) 2 1)"
proof -
  let ?w = "ex_saved (apply_pre_transform a (apply_pre_filter a [ex_graph1, ex_graph2])) 2 1"
  have "\<not> files_exist (processed_paths a) ex_raw_world"
    by (simp add: files_exist_def exists_def ex_paths(2) [OF assms] ex_no_dirs)
  moreover have "files_exist (raw_paths a) ex_raw_world"
    by (simp add: files_exist_def exists_def ex_paths(3) [OF assms] ex_raw_world_def)
  ultimately have "ensure_processed ex_env a ex_raw_world = Inr ?w"
    by (simp add: ensure_processed_def ensure_raw_def ex_process [OF assms])
  moreover have "files_exist (processed_paths a) ?w"
    by (simp add: files_exist_def exists_def ex_paths(2) [OF assms] ex_saved_def)
  ultimately show ?thesis
    by (simp add: init_def ensure_processed_def)
qed

lemma ex_strip_both:
  "strip_attributes ex_args
     \<lparr>data_list = [ex_graph1, ex_graph2], num_node_attributes = 2, num_edge_attributes = 1\<rparr> =
   Inr ex_loaded"
  by (simp add: strip_attributes_def ex_fields strip_x_def strip_value_def ex_graph1_def
      ex_graph2_def ex_stripped1_def ex_stripped2_def ex_loaded_def slice_cols_def
      slice_start_def)

lemma ex_init: "init ex_env ex_args ex_raw_world = Inr (ex_processed_world, ex_loaded)"
  by (simp add: ex_init_raw ex_init_saved ex_fields apply_pre_transform_def
      apply_pre_filter_def ex_strip_both ex_processed_world_def)

lemma ex_init_unstripped:
  "init ex_env (ex_args\<lparr>pre_transform := t, use_node_attributes := True,
                        use_edge_attributes := True\<rparr>) ex_raw_world =
     Inr (ex_saved (case t of None \<Rightarrow> [ex_graph1, ex_graph2]
                            | Some f \<Rightarrow> [f ex_graph1, f ex_graph2]) 2 1,
          \<lparr>data_list = (case t of None \<Rightarrow> [ex_graph1, ex_graph2]
                                | Some f \<Rightarrow> [f ex_graph1, f ex_graph2]),
           num_node_attributes = 2, num_edge_attributes = 1\<rparr>)"
  by (simp add: ex_init_raw ex_init_saved ex_fields apply_pre_transform_def
      apply_pre_filter_def strip_attributes_def split: option.splits)

theorem zero_count_leaves_records_unchanged_witness:
  "init ex_env ex_args (ex_saved [ex_graph1, ex_graph2] 0 1) =
     Inr (ex_saved [ex_graph1, ex_graph2] 0 1,
          \<lparr>data_list = [ex_graph1\<lparr>data_adj := data_adj ex_stripped1\<rparr>,
                        ex_graph2\<lparr>data_adj := data_adj ex_stripped2\<rparr>],
           num_node_attributes = 0, num_edge_attributes = 1\<rparr>) \<and>
   load ex_args (ex_saved [ex_graph1, ex_graph2] 0 1) =
     Inr \<lparr>data_list = [ex_graph1, ex_graph2], num_node_attributes = 0,
          num_edge_attributes = 1\<rparr> \<and>
   \<not> use_node_attributes ex_args \<and>
   map data_x [ex_graph1\<lparr>data_adj := data_adj ex_stripped1\<rparr>,
               ex_graph2\<lparr>data_adj := data_adj ex_stripped2\<rparr>] =
     map data_x [ex_graph1, ex_graph2]"
proof -
  let ?w = "ex_saved [ex_graph1, ex_graph2] 0 1"
  let ?p = "\<lparr>data_list = [ex_graph1, ex_graph2], num_node_attributes = 0,
             num_edge_attributes = 1\<rparr>"
  let ?s = "\<lparr>data_list = [ex_graph1\<lparr>data_adj := data_adj ex_stripped1\<rparr>,
                            ex_graph2\<lparr>data_adj := data_adj ex_stripped2\<rparr>],
             num_node_attributes = 0, num_edge_attributes = 1\<rparr>"
  have st: "strip_attributes ex_args ?p = Inr ?s"
    by (simp add: strip_attributes_def ex_fields strip_value_def ex_graph1_def ex_graph2_def
        ex_stripped1_def ex_stripped2_def slice_cols_def slice_start_def)
  have i: "init ex_env ex_args ?w = Inr (?w, ?s)"
    by (simp add: ex_init_saved ex_fields st)
  have l: "load ex_args ?w = Inr ?p"
    by (simp add: ex_load ex_fields)
  show ?thesis
    using zero_count_leaves_records_unchanged [OF i l] i l by (simp add: ex_fields)
qed

theorem init_twice_same_dataset_witness:
  "init ex_env ex_args ex_raw_world = Inr (ex_processed_world, ex_loaded) \<and>
   init ex_env ex_args ex_processed_world = Inr (ex_processed_world, ex_loaded)"
  using init_twice_same_dataset [of ex_env ex_args ex_raw_world ex_processed_world ex_loaded]
  by (simp add: ex_init)

section \<open>The label counts\<close>





lemma ex_widths:
  "width (data_x ex_graph1) = 3" "width (data_x ex_graph2) = 3"
  "width (data_x ex_stripped1) = 1" "width (data_x ex_stripped2) = 1"
  "width (data_x (keep_last_column ex_graph1)) = 1"
  "width (data_x (keep_last_column ex_graph2)) = 1"
  by (simp_all add: width_def ex_graph1_def ex_graph2_def ex_stripped1_def ex_stripped2_def
      keep_last_column_def slice_cols_def slice_start_def)



lemma ex_init_empty:
  "init ex_env (ex_args\<lparr>pre_filter := Some reject_all\<rparr>) ex_raw_world =
     Inr (ex_saved [] 2 1,
          \<lparr>data_list = [], num_node_attributes = 2, num_edge_attributes = 1\<rparr>)"
  by (simp add: ex_init_raw ex_init_saved ex_fields apply_pre_transform_def
      apply_pre_filter_def reject_all_def strip_attributes_def)




text \<open>
  C2 fails as stated, in two ways. Nothing keeps the persisted attribute count below the
  width of the persisted records: with a \<^verbatim>\<open>pre_transform\<close> that keeps the last node column
  only, the cache holds one-column matrices and the parser's count 2, and
  \<^verbatim>\<open>num_node_labels\<close> is \<open>1 - 2 = -1\<close>. And a \<^verbatim>\<open>pre_filter\<close> that rejects every record
  leaves a dataset without a record, for which the counts have no value.
\<close>

theorem label_count_negative_counterexample:
  "init ex_env (ex_args\<lparr>pre_transform := Some keep_last_column,
                       use_node_attributes := True, use_edge_attributes := True\<rparr>)
       ex_raw_world =
     Inr (ex_saved [keep_last_column ex_graph1, keep_last_column ex_graph2] 2 1,
          \<lparr>data_list = [keep_last_column ex_graph1, keep_last_column ex_graph2],
           num_node_attributes = 2, num_edge_attributes = 1\<rparr>) \<and>
   num_node_features [keep_last_column ex_graph1, keep_last_column ex_graph2] = Inr 1 \<and>
   num_node_labels [keep_last_column ex_graph1, keep_last_column ex_graph2]
     \<lparr>data_list = [keep_last_column ex_graph1, keep_last_column ex_graph2],
      num_node_attributes = 2, num_edge_attributes = 1\<rparr> = Inr (- 1) \<and>
   init ex_env (ex_args\<lparr>pre_filter := Some reject_all\<rparr>) ex_raw_world =
     Inr (ex_saved [] 2 1,
          \<lparr>data_list = [], num_node_attributes = 2, num_edge_attributes = 1\<rparr>) \<and>
   num_node_labels []
     \<lparr>data_list = [], num_node_attributes = 2, num_edge_attributes = 1\<rparr> = Inl IndexError"
  using ex_init_unstripped [of "Some keep_last_column"]
  by (simp add: ex_init_empty num_node_features_def num_node_labels_def ex_widths)

text \<open>
  C2 as amended: for every dataset loaded, with any combination of the flags, from a cache
  that \<^verbatim>\<open>process\<close> wrote with at least one record: the attribute counts are the parser's,
  \<^verbatim>\<open>num_node_labels = num_node_features - num_node_attributes\<close> and
  \<^verbatim>\<open>num_edge_labels = num_edge_features - num_edge_attributes\<close>; \<^verbatim>\<open>num_node_labels\<close> is at
  least 0 exactly when the first persisted record's node feature matrix has at least
  \<^verbatim>\<open>num_node_attributes\<close> columns, and \<^verbatim>\<open>num_edge_labels\<close> exactly when its edge values have
  at least \<^verbatim>\<open>num_edge_attributes\<close> columns. Both are at least 0 when the parser's records
  are that wide and no \<^verbatim>\<open>pre_transform\<close> is given.
\<close>

theorem label_counts_of_loaded_dataset:
  assumes "read_tu_data e (files w) (raw_dir a) (name a) = Inr (ds, nna, nea)"
    and "process e a w = Inr w1"
    and "init e a w1 = Inr (w', self)"
    and "apply_pre_transform a (apply_pre_filter a ds) = d # rest"
  shows "\<exists>nf ef nl el.
           load a w' =
             Inr \<lparr>data_list = d # rest, num_node_attributes = nna,
                  num_edge_attributes = nea\<rparr> \<and>
           num_node_attributes self = nna \<and> num_edge_attributes self = nea \<and>
           num_node_features (d # rest) = Inr nf \<and> num_edge_features (d # rest) = Inr ef \<and>
           num_node_labels (d # rest) self = Inr nl \<and>
           num_edge_labels (d # rest) self = Inr el \<and>
           nl = nf - num_node_attributes self \<and> el = ef - num_edge_attributes self \<and>
           (0 \<le> nl) = (nna \<le> width (data_x d)) \<and>
           (0 \<le> el) = (nea \<le> width (storage_value (data_adj d))) \<and>
           (pre_transform a = None \<and>
            (\<forall>x \<in> set ds. nna \<le> width (data_x x) \<and>
                            nea \<le> width (storage_value (data_adj x))) \<longrightarrow>
              0 \<le> nl \<and> 0 \<le> el)"
proof -
  let ?p = "\<lparr>data_list = d # rest, num_node_attributes = nna, num_edge_attributes = nea\<rparr>"
  have l1: "load a w1 = Inr ?p"
    using process_persisted [OF assms(1,2)] assms(4) by (simp add: load_def)
  have "ensure_processed e a w1 = Inr w1"
    using load_exists [OF l1] by (simp add: ensure_processed_def)
  then have w: "w' = w1" and s: "strip_attributes a ?p = Inr self"
    using assms(3) l1 by (auto simp: init_def split: sum.splits)
  have c: "num_node_attributes self = nna" "num_edge_attributes self = nea"
    using strip_attributes_Inr(1,2) [OF s] by simp_all
  have wide: "nna \<le> width (data_x d) \<and> nea \<le> width (storage_value (data_adj d))"
    if t: "pre_transform a = None"
      and p: "\<forall>x \<in> set ds. nna \<le> width (data_x x) \<and> nea \<le> width (storage_value (data_adj x))"
  proof -
    have "d \<in> set (apply_pre_filter a ds)"
      using assms(4) t by (simp add: apply_pre_transform_def)
    then have "d \<in> set ds"
      by (auto simp: apply_pre_filter_def split: option.splits)
    then show ?thesis using p by blast
  qed
  show ?thesis
    using l1 w c wide
    by (auto simp: num_node_features_def num_edge_features_def num_node_labels_def
        num_edge_labels_def)
qed

theorem label_counts_of_loaded_dataset_witness:
  "read_tu_data ex_env (files ex_raw_world) (raw_dir ex_args) (name ex_args) =
     Inr ([ex_graph1, ex_graph2], 2, 1) \<and>
   process ex_env ex_args ex_raw_world = Inr ex_processed_world \<and>
   init ex_env ex_args ex_processed_world = Inr (ex_processed_world, ex_loaded) \<and>
   \<not> use_node_attributes ex_args \<and> \<not> use_edge_attributes ex_args \<and>
   num_node_features [ex_graph1, ex_graph2] = Inr 3 \<and>
   num_edge_features [ex_graph1, ex_graph2] = Inr 2 \<and>
   num_node_labels [ex_graph1, ex_graph2] ex_loaded = Inr 1 \<and>
   num_edge_labels [ex_graph1, ex_graph2] ex_loaded = Inr 1"
proof -
  have r: "read_tu_data ex_env (files ex_raw_world) (raw_dir ex_args) (name ex_args) =
     Inr ([ex_graph1, ex_graph2], 2, 1)"
    by (simp add: ex_dirs ex_fields ex_parse)
  have p: "process ex_env ex_args ex_raw_world = Inr ex_processed_world"
    by (simp add: ex_process ex_fields apply_pre_transform_def apply_pre_filter_def
        ex_processed_world_def)
  have i: "init ex_env ex_args ex_processed_world = Inr (ex_processed_world, ex_loaded)"
    by (simp add: ex_init_saved ex_fields ex_strip_both ex_processed_world_def)
  have t: "apply_pre_transform ex_args (apply_pre_filter ex_args [ex_graph1, ex_graph2]) =
      ex_graph1 # [ex_graph2]"
    by (simp add: apply_pre_transform_def apply_pre_filter_def ex_fields)
  have e: "width (storage_value (data_adj ex_graph1)) = 2"
    by (simp add: width_def ex_graph1_def)
  show ?thesis
    using label_counts_of_loaded_dataset [OF r p i t] r p i
    by (auto simp: ex_fields ex_widths e num_node_features_def num_edge_features_def
        num_node_labels_def num_edge_labels_def ex_loaded_def)
qed

section \<open>Reprocessing without a fetch\<close>

lemma processed_paths_outside_raw_dir:
  assumes "p \<in> set (processed_paths a)"
  shows "p \<noteq> raw_dir a" and "\<not> under (raw_dir a) p"
  using assms
  by (auto simp: processed_paths_eq raw_dir_eq processed_dir_eq under_def)

lemma process_frame:
  assumes "process e a w = Inr w'"
  shows "fetched w' = fetched w"
    and "p \<notin> set (processed_paths a) \<Longrightarrow> files w' p = files w p"
proof -
  obtain ds nna nea where
    r: "read_tu_data e (files w) (raw_dir a) (name a) = Inr (ds, nna, nea)"
    using assms by (auto simp: process_def split: sum.splits)
  show "fetched w' = fetched w"
    using process_files(2) [OF r assms] .
  show "files w' p = files w p" if "p \<notin> set (processed_paths a)"
    using process_files(1) [OF r assms] that by (simp add: processed_paths_eq)
qed

text \<open>
  C5: a run of \<^verbatim>\<open>process\<close> that returns fetches nothing and leaves every path other than the
  three processed artifacts as it was, in particular the raw directory and all below it. When
  the raw files are there and the processed artifacts are not all there (deleted, say), the
  cache check goes straight to \<^verbatim>\<open>process\<close>: it reprocesses and does not download.
\<close>

theorem process_keeps_raw_and_fetches_nothing:
  assumes "process e a w = Inr w'"
  shows "fetched w' = fetched w \<and>
         (\<forall>p. p \<notin> set (processed_paths a) \<longrightarrow> files w' p = files w p) \<and>
         (\<forall>p. p = raw_dir a \<or> under (raw_dir a) p \<longrightarrow> files w' p = files w p) \<and>
         (files_exist (raw_paths a) w \<and> \<not> files_exist (processed_paths a) w \<longrightarrow>
            ensure_processed e a w = Inr w')"
proof -
  have "files w' p = files w p" if "p = raw_dir a \<or> under (raw_dir a) p" for p
  proof -
    have "p \<notin> set (processed_paths a)"
      using that processed_paths_outside_raw_dir [of p a] by blast
    then show ?thesis by (rule process_frame(2) [OF assms])
  qed
  moreover have "ensure_processed e a w = Inr w'"
    if "files_exist (raw_paths a) w \<and> \<not> files_exist (processed_paths a) w"
    using that assms by (simp add: ensure_processed_def ensure_raw_def)
  ultimately show ?thesis
    using process_frame [OF assms] by blast
qed

theorem process_keeps_raw_and_fetches_nothing_witness:
  "process ex_env ex_args ex_raw_world = Inr ex_processed_world \<and>
   fetched ex_processed_world = fetched ex_raw_world \<and>
   files ex_processed_world ''data/MUTAG/raw/MUTAG_A.txt'' = Some (File (Text ''1, 2'')) \<and>
   files ex_raw_world ''data/MUTAG/raw/MUTAG_A.txt'' = Some (File (Text ''1, 2'')) \<and>
   files_exist (raw_paths ex_args) ex_raw_world \<and>
   \<not> files_exist (processed_paths ex_args) ex_raw_world \<and>
   ensure_processed ex_env ex_args ex_raw_world = Inr ex_processed_world"
proof -
  have p: "process ex_env ex_args ex_raw_world = Inr ex_processed_world"
    by (simp add: ex_process ex_fields apply_pre_transform_def apply_pre_filter_def
        ex_processed_world_def)
  have r: "files_exist (raw_paths ex_args) ex_raw_world"
    by (simp add: files_exist_def exists_def ex_paths(3) ex_fields ex_raw_world_def)
  have n: "\<not> files_exist (processed_paths ex_args) ex_raw_world"
    by (simp add: files_exist_def exists_def ex_paths(2) ex_fields ex_no_dirs)
  have f: "files ex_raw_world ''data/MUTAG/raw/MUTAG_A.txt'' = Some (File (Text ''1, 2''))"
    by (simp add: ex_raw_world_def)
  have u: "under (raw_dir ex_args) ''data/MUTAG/raw/MUTAG_A.txt''"
    by (simp add: ex_paths(1) ex_fields under_def)
  show ?thesis
    using process_keeps_raw_and_fetches_nothing [OF p] p r n f u by simp
qed

section \<open>Slashes and segments\<close>

lemma takeWhile_not_slash:
  "CHR ''/'' \<notin> set xs \<Longrightarrow> takeWhile (\<lambda>c. c \<noteq> CHR ''/'') (xs @ CHR ''/'' # ys) = xs"
  by (induction xs) auto

lemma prefix_slash_mem: "prefix (x @ ''/'') y \<Longrightarrow> CHR ''/'' \<in> set y"
  by (auto simp: prefix_def)

lemma segment_unique:
  assumes "CHR ''/'' \<notin> set x" and "CHR ''/'' \<notin> set y"
    and "prefix (x @ ''/'') (y @ ''/'' @ r)"
  shows "x = y"
proof -
  obtain z where z: "y @ ''/'' @ r = x @ ''/'' @ z"
    using assms(3) by (auto simp: prefix_def)
  have "takeWhile (\<lambda>c. c \<noteq> CHR ''/'') (y @ ''/'' @ r) = y"
    using assms(2) by (simp add: takeWhile_not_slash)
  moreover have "takeWhile (\<lambda>c. c \<noteq> CHR ''/'') (x @ ''/'' @ z) = x"
    using assms(1) by (simp add: takeWhile_not_slash)
  ultimately show ?thesis using z by simp
qed

lemma last_segment_plain:
  "CHR ''/'' \<notin> set t \<Longrightarrow> last_segment (u @ ''/'' @ t) = t"
  by (simp add: last_segment_def takeWhile_not_slash)

lemma plain_name_facts:
  assumes "plain_name n"
  shows "\<not> startswith_sep n" and "\<not> startswith_sep (n @ s)" and "\<not> endswith_sep (q @ n)"
    and "q @ n \<noteq> []"
  using assms
  by (auto simp: plain_name_def startswith_sep_def endswith_sep_def hd_append
      dest: hd_in_set last_in_set)

lemma raw_name_facts:
  "CHR ''/'' \<notin> set (raw_name a)" "raw_name a \<noteq> []" "raw_name a \<noteq> n @ ''.zip''"
  "last (raw_name a) \<noteq> CHR ''p''"
proof -
  show "CHR ''/'' \<notin> set (raw_name a)" "raw_name a \<noteq> []" and l: "last (raw_name a) \<noteq> CHR ''p''"
    by (simp_all add: raw_name_def)
  show "raw_name a \<noteq> n @ ''.zip''"
  proof
    assume "raw_name a = n @ ''.zip''"
    then have "last (raw_name a) = last (n @ ''.zip'')" by simp
    then show False using l by simp
  qed
qed

text \<open>The paths \<^verbatim>\<open>download\<close> works with, for a plain dataset name.\<close>

lemma download_paths:
  assumes "plain_name (name a)"
  shows "dataset_folder a \<noteq> []" and "\<not> endswith_sep (dataset_folder a)"
    and "raw_dir a = dataset_folder a @ ''/'' @ raw_name a"
    and "archive_path a = dataset_folder a @ ''/'' @ name a @ ''.zip''"
    and "extracted_dir a = dataset_folder a @ ''/'' @ name a"
proof -
  have f: "dataset_folder a = sep_after (root a) @ name a"
    using plain_name_facts(1) [OF assms]
    by (simp add: dataset_folder_def osp_join_single)
  show 1: "dataset_folder a \<noteq> []" and 2: "\<not> endswith_sep (dataset_folder a)"
    unfolding f using plain_name_facts(3,4) [OF assms] by simp_all
  then have s: "sep_after (dataset_folder a) = dataset_folder a @ ''/''"
    by (simp add: sep_after_def)
  have j: "join2 (root a) (name a) = dataset_folder a"
    by (simp add: dataset_folder_def osp_join_def)
  show "raw_dir a = dataset_folder a @ ''/'' @ raw_name a"
    by (simp add: raw_dir_eq j s raw_name_def)
  have "last_segment (archive_url a) = name a @ ''.zip''"
    using assms last_segment_plain [of "name a @ ''.zip''"]
    by (simp add: archive_url_def plain_name_def)
  then show "archive_path a = dataset_folder a @ ''/'' @ name a @ ''.zip''"
    using plain_name_facts(2) [OF assms]
    by (simp add: archive_path_def osp_join_single s)
  show "extracted_dir a = dataset_folder a @ ''/'' @ name a"
    using plain_name_facts(1) [OF assms]
    by (simp add: extracted_dir_def osp_join_single s)
qed

section \<open>Extraction\<close>

lemma foldl_mkdir:
  "foldl (\<lambda>g d. g(k d \<mapsto> Dir)) fs ds p = (if p \<in> k ` set ds then Some Dir else fs p)"
proof (induction ds arbitrary: fs)
  case Nil
  then show ?case by simp
next
  case (Cons d ds)
  show ?case
    unfolding foldl_Cons Cons.IH by simp
qed

lemma extract_member_apply:
  "extract_member folder fs m p =
     (if \<not> endswith_sep (fst m) \<and> p = osp_join folder [fst m] then Some (File (Text (snd m)))
      else if p \<in> (\<lambda>d. osp_join folder [d]) ` set (parent_dirs (fst m)) then Some Dir
      else fs p)"
  unfolding extract_member_def Let_def foldl_mkdir by simp

lemma extract_pointwise:
  "fs p = fs' p \<Longrightarrow>
     foldl (extract_member folder) fs ms p = foldl (extract_member folder) fs' ms p"
proof (induction ms arbitrary: fs fs')
  case Nil
  then show ?case by simp
next
  case (Cons m ms)
  have e: "extract_member folder fs m p = extract_member folder fs' m p"
    using Cons.prems by (simp add: extract_member_apply)
  show ?case
    unfolding foldl_Cons
    using e by (rule Cons.IH [of "extract_member folder fs m" "extract_member folder fs' m"])
qed

text \<open>The parent directories of a member below \<open>n/\<close> are \<open>n\<close> and paths below \<open>n\<close>.\<close>

lemma parent_dirs_below:
  assumes "CHR ''/'' \<notin> set n" and "prefix (n @ ''/'') rel" and "d \<in> set (parent_dirs rel)"
  shows "d = n \<or> prefix (n @ ''/'') d"
proof -
  obtain r where rel: "rel = n @ ''/'' @ r"
    using assms(2) by (auto simp: prefix_def)
  obtain i where i: "d = take i rel" "i < length rel" "rel ! i = CHR ''/''"
    using assms(3) by (auto simp: parent_dirs_def)
  have "\<not> i < length n"
  proof
    assume "i < length n"
    then have "rel ! i = n ! i" by (simp add: rel nth_append)
    then show False using i(3) assms(1) nth_mem [OF \<open>i < length n\<close>] by simp
  qed
  then have "length n \<le> i" by simp
  then show ?thesis
  proof (cases "i = length n")
    case True
    then show ?thesis by (simp add: i(1) rel)
  next
    case False
    then have "length n < i" using \<open>length n \<le> i\<close> by simp
    then obtain j where j: "i = Suc (length n + j)"
      using less_imp_Suc_add by blast
    have "d = n @ ''/'' @ take j r"
      by (simp add: i(1) rel j)
    then show ?thesis by simp
  qed
qed

lemma parent_dirs_top:
  assumes "n \<noteq> []" and "prefix (n @ ''/'') rel"
  shows "n \<in> set (parent_dirs rel)"
proof -
  obtain r where rel: "rel = n @ ''/'' @ r"
    using assms(2) by (auto simp: prefix_def)
  have "length n \<in> set (filter (\<lambda>i. rel ! i = CHR ''/'') [1..<length rel])"
    using assms(1) by (auto simp: rel nth_append Suc_le_eq)
  then have "take (length n) rel \<in> set (parent_dirs rel)"
    unfolding parent_dirs_def set_map by (rule imageI)
  then show ?thesis by (simp add: rel)
qed
text \<open>
  A member below \<open>n/\<close> is written at or below \<open>folder/n\<close>, and makes \<open>folder/n\<close> a
  directory; every other path keeps what it held.
\<close>

lemma osp_join_below:
  assumes "folder \<noteq> []" and "\<not> endswith_sep folder" and "\<not> startswith_sep d"
  shows "osp_join folder [d] = folder @ ''/'' @ d"
  using assms by (simp add: osp_join_single sep_after_def)

lemma under_below: "under (f @ CHR ''/'' # x) (f @ CHR ''/'' # y) = prefix (x @ ''/'') y"
  by (simp add: under_def)

lemma member_targets:
  assumes "plain_name n" and "folder \<noteq> []" and "\<not> endswith_sep folder"
    and "prefix (n @ ''/'') (fst m)"
  shows "extract_member folder fs m (folder @ ''/'' @ n) = Some Dir"
    and "p \<noteq> folder @ ''/'' @ n \<Longrightarrow> \<not> under (folder @ ''/'' @ n) p \<Longrightarrow>
           extract_member folder fs m p = fs p"
proof -
  obtain r where rel: "fst m = n @ ''/'' @ r"
    using assms(4) by (auto simp: prefix_def)
  have n: "n \<noteq> []" "CHR ''/'' \<notin> set n"
    using assms(1) by (simp_all add: plain_name_def)
  have t: "osp_join folder [fst m] = folder @ ''/'' @ n @ ''/'' @ r"
    using osp_join_below [OF assms(2,3) plain_name_facts(2) [OF assms(1)], of "''/'' @ r"]
    by (simp add: rel)
  have d: "osp_join folder [d] = folder @ ''/'' @ d \<and> (d = n \<or> prefix (n @ ''/'') d)"
    if "d \<in> set (parent_dirs (fst m))" for d
  proof -
    have c: "d = n \<or> prefix (n @ ''/'') d"
      using parent_dirs_below [OF n(2) assms(4) that] .
    then obtain s where "d = n @ s"
      by (auto simp: prefix_def)
    then have "\<not> startswith_sep d"
      using plain_name_facts(2) [OF assms(1)] by simp
    then show ?thesis
      using osp_join_below [OF assms(2,3)] c by simp
  qed
  have top: "folder @ ''/'' @ n \<in> (\<lambda>d. osp_join folder [d]) ` set (parent_dirs (fst m))"
    using parent_dirs_top [OF n(1) assms(4)] d [of n] by (metis (no_types, lifting) imageI)
  show "extract_member folder fs m (folder @ ''/'' @ n) = Some Dir"
    using top by (simp add: extract_member_apply t)
  show "extract_member folder fs m p = fs p"
    if "p \<noteq> folder @ ''/'' @ n" "\<not> under (folder @ ''/'' @ n) p"
  proof -
    have "p \<noteq> osp_join folder [fst m]"
      using that(2) by (auto simp: t under_def)
    moreover have "p \<notin> (\<lambda>d. osp_join folder [d]) ` set (parent_dirs (fst m))"
    proof
      assume "p \<in> (\<lambda>d. osp_join folder [d]) ` set (parent_dirs (fst m))"
      then obtain d' where d': "d' \<in> set (parent_dirs (fst m))" "p = osp_join folder [d']"
        by blast
      have "p = folder @ ''/'' @ d'" "d' = n \<or> prefix (n @ ''/'') d'"
        using d [OF d'(1)] d'(2) by simp_all
      then show False
        using that by (auto simp: under_below)
    qed
    ultimately show ?thesis
      by (simp add: extract_member_apply)
  qed
qed

lemma extract_frame:
  assumes "plain_name n" and "folder \<noteq> []" and "\<not> endswith_sep folder"
    and "\<forall>m \<in> set ms. prefix (n @ ''/'') (fst m)"
    and "p \<noteq> folder @ ''/'' @ n" and "\<not> under (folder @ ''/'' @ n) p"
  shows "foldl (extract_member folder) fs ms p = fs p"
  using assms(4)
proof (induction ms arbitrary: fs)
  case Nil
  then show ?case by simp
next
  case (Cons m ms)
  have "foldl (extract_member folder) (extract_member folder fs m) ms p =
          extract_member folder fs m p"
    using Cons.IH [of "extract_member folder fs m"] Cons.prems by simp
  also have "\<dots> = fs p"
    using member_targets(2) [OF assms(1,2,3) _ assms(5,6), of m fs] Cons.prems by simp
  finally show ?case by simp
qed

lemma extract_makes_dir:
  assumes "plain_name n" and "folder \<noteq> []" and "\<not> endswith_sep folder"
    and "\<forall>m \<in> set ms. prefix (n @ ''/'') (fst m)" and "ms \<noteq> []"
  shows "foldl (extract_member folder) fs ms (folder @ ''/'' @ n) = Some Dir"
proof -
  obtain ms' m where ms: "ms = ms' @ [m]"
    using assms(5) by (metis rev_exhaust)
  have "prefix (n @ ''/'') (fst m)"
    using assms(4) ms by simp
  then show ?thesis
    using member_targets(1) [OF assms(1,2,3)] by (simp add: ms)
qed
section \<open>The download\<close>

lemma rmtree_removes: "rmtree d w = Inr w' \<Longrightarrow> files w' d = None"
  by (auto simp: rmtree_def split: option.splits node.splits)

lemma raw_file_names_eq:
  "raw_file_names a = [name a @ ''_A.txt'', name a @ ''_graph_indicator.txt'']"
  by (simp add: raw_file_names_def)

lemma raw_paths_plain:
  assumes "plain_name (name a)"
  shows "raw_paths a = [raw_dir a @ ''/'' @ name a @ ''_A.txt'',
                        raw_dir a @ ''/'' @ name a @ ''_graph_indicator.txt'']"
  using raw_dir_not_sep [of a] plain_name_facts(2) [OF assms]
  by (simp add: raw_paths_def raw_file_names_def osp_join_single sep_after_def)

text \<open>The run of \<^verbatim>\<open>download\<close>, step by step, on abstract paths.\<close>

lemma download_steps:
  fixes w :: "'a world" and u :: string
  assumes n: "plain_name n" and r: "CHR ''/'' \<notin> set rn" "rn \<noteq> n" "rn \<noteq> n @ ''.zip''"
    and f: "folder \<noteq> []" "\<not> endswith_sep folder"
    and ms: "ms \<noteq> []" "\<forall>m \<in> set ms. prefix (n @ ''/'') (fst m)"
    and raw: "files w (folder @ ''/'' @ rn) = Some Dir"
    and zip: "files w (folder @ ''/'' @ n @ ''.zip'') \<noteq> Some Dir"
  defines "w1 \<equiv> w\<lparr>files := (files w)(folder @ ''/'' @ n @ ''.zip'' \<mapsto> File (Archive ms)),
                   fetched := fetched w @ [u]\<rparr>"
  shows "\<exists>w'. (case extract_zip (folder @ ''/'' @ n @ ''.zip'') folder w1 of
                  Inl err \<Rightarrow> Inl err
                | Inr w2 \<Rightarrow>
                    (case unlink (folder @ ''/'' @ n @ ''.zip'') w2 of
                       Inl err \<Rightarrow> Inl err
                     | Inr w3 \<Rightarrow>
                         (case rmtree (folder @ ''/'' @ rn) w3 of
                            Inl err \<Rightarrow> Inl err
                          | Inr w4 \<Rightarrow>
                              rename (folder @ ''/'' @ n) (folder @ ''/'' @ rn) w4))) = Inr w' \<and>
              fetched w' = fetched w @ [u] \<and>
              files w' (folder @ ''/'' @ n @ ''.zip'') = None \<and>
              files w' (folder @ ''/'' @ rn) = Some Dir \<and>
              (\<forall>t. files w' (folder @ ''/'' @ rn @ ''/'' @ t) =
                     foldl (extract_member folder) (files w) ms (folder @ ''/'' @ n @ ''/'' @ t))"
proof -
  let ?zip = "folder @ ''/'' @ n @ ''.zip''"
  let ?src = "folder @ ''/'' @ n"
  let ?raw = "folder @ ''/'' @ rn"
  let ?E = "foldl (extract_member folder) (files w1) ms"
  have ns: "CHR ''/'' \<notin> set n" "n \<noteq> []"
    using n by (simp_all add: plain_name_def)
  have nz: "CHR ''/'' \<notin> set (n @ ''.zip'')"
    using ns by simp
  have frame: "?E p = files w1 p" if "p \<noteq> ?src" "\<not> under ?src p" for p
    using extract_frame [OF n f ms(2) that] .
  have zip_out: "?zip \<noteq> ?src" "\<not> under ?src ?zip"
    by (simp_all add: under_below)
  have raw_out: "?raw \<noteq> ?src" "\<not> under ?src ?raw" "?raw \<noteq> ?zip"
    using r prefix_slash_mem [of n rn] by (auto simp: under_below)
  have src_out: "\<not> under ?raw ?src" "\<not> under ?raw ?zip"
    using ns(1) nz prefix_slash_mem [of rn n] prefix_slash_mem [of rn "n @ ''.zip''"]
    by (auto simp: under_below)
  have below_out: "?src @ ''/'' @ t \<noteq> ?raw" "\<not> under ?raw (?src @ ''/'' @ t)"
    "?src @ ''/'' @ t \<noteq> ?zip" for t
    using r(1,2) ns(1) segment_unique [of rn n t]
    by (auto simp: under_below)
  have E_zip: "?E ?zip = Some (File (Archive ms))"
    using frame [OF zip_out] by (simp add: w1_def)
  have E_raw: "?E ?raw = Some Dir"
    using frame [OF raw_out(1,2)] raw raw_out(3) by (simp add: w1_def)
  have E_src: "?E ?src = Some Dir"
    using extract_makes_dir [OF n f ms(2,1)] .
  have E_below: "?E (?src @ ''/'' @ t) =
      foldl (extract_member folder) (files w) ms (?src @ ''/'' @ t)" for t
    by (rule extract_pointwise) (use below_out(3) [of t] in \<open>simp add: w1_def\<close>)
  define w2 where "w2 = w1\<lparr>files := ?E\<rparr>"
  define w3 where "w3 = w2\<lparr>files := (files w2)(?zip := None)\<rparr>"
  define w4 where
    "w4 = w3\<lparr>files := (\<lambda>p. if p = ?raw \<or> under ?raw p then None else files w3 p)\<rparr>"
  define w5 where
    "w5 = w4\<lparr>files := (\<lambda>p. if p = ?raw then Some Dir
                           else if under ?raw p then files w4 (?src @ drop (length ?raw) p)
                           else if p = ?src \<or> under ?src p then None
                           else files w4 p)\<rparr>"
  have s2: "extract_zip ?zip folder w1 = Inr w2"
    by (simp add: extract_zip_def w1_def w2_def)
  have s3: "unlink ?zip w2 = Inr w3"
    using E_zip by (simp add: unlink_def w2_def w3_def)
  have "files w3 ?raw = Some Dir"
    using E_raw raw_out(3) by (simp add: w3_def w2_def)
  then have s4: "rmtree ?raw w3 = Inr w4"
    by (simp add: rmtree_def w4_def cong: if_cong)
  have f4_src: "files w4 ?src = Some Dir"
    using E_src raw_out(1) src_out(1) zip_out(1) by (simp add: w4_def w3_def w2_def)
  have f4_raw: "files w4 ?raw = None"
    by (simp add: w4_def)
  have s5: "rename ?src ?raw w4 = Inr w5"
    using f4_src f4_raw raw_out(2) by (simp add: rename_def w5_def cong: if_cong)
  have c1: "fetched w5 = fetched w @ [u]"
    by (simp add: w5_def w4_def w3_def w2_def w1_def)
  have c2: "files w5 ?zip = None"
    using raw_out(3) src_out(2) zip_out by (simp add: w5_def w4_def w3_def)
  have c3: "files w5 ?raw = Some Dir"
    by (simp add: w5_def)
  have c4: "files w5 (?raw @ ''/'' @ t) =
      foldl (extract_member folder) (files w) ms (?src @ ''/'' @ t)" for t
  proof -
    have u: "under ?raw (?raw @ ''/'' @ t)" "?raw @ ''/'' @ t \<noteq> ?raw"
      by (simp_all add: under_def)
    have "files w5 (?raw @ ''/'' @ t) = files w4 (?src @ ''/'' @ t)"
      using u by (simp add: w5_def)
    also have "\<dots> = files w3 (?src @ ''/'' @ t)"
      using below_out(1,2) [of t] by (simp add: w4_def)
    also have "\<dots> = ?E (?src @ ''/'' @ t)"
      using below_out(3) [of t] by (simp add: w3_def w2_def)
    finally show ?thesis
      using E_below [of t] by simp
  qed
  have "(case extract_zip ?zip folder w1 of
           Inl err \<Rightarrow> Inl err
         | Inr w2 \<Rightarrow>
             (case unlink ?zip w2 of
                Inl err \<Rightarrow> Inl err
              | Inr w3 \<Rightarrow>
                  (case rmtree ?raw w3 of
                     Inl err \<Rightarrow> Inl err
                   | Inr w4 \<Rightarrow> rename ?src ?raw w4))) = Inr w5"
    by (simp only: s2 s3 s4 s5 sum.case)
  moreover have "files w5 (folder @ ''/'' @ rn @ ''/'' @ t) =
      foldl (extract_member folder) (files w) ms (folder @ ''/'' @ n @ ''/'' @ t)" for t
    using c4 [of t] by simp
  ultimately show ?thesis
    using c1 c2 c3 by blast
qed

text \<open>
  C6: the raw-presence check asks for the two files \<^verbatim>\<open><name>_A.txt\<close> and
  \<^verbatim>\<open><name>_graph_indicator.txt\<close> below the raw directory, and when one is missing the
  archive is downloaded. For a dataset name that is a single path segment other than the raw
  directory's own name, an archive served at the URL whose members lie below \<^verbatim>\<open><name>/\<close>,
  and an existing raw directory, \<^verbatim>\<open>download\<close> returns; it has fetched exactly
  \<^verbatim>\<open>{base_url}/{name}.zip\<close>, with the base URL chosen by \<^verbatim>\<open>cleaned\<close>; the archive file is
  gone; and the raw directory is the extracted \<^verbatim>\<open><name>\<close> directory: below it is what the
  extraction left below \<^verbatim>\<open><folder>/<name>\<close>, nothing of its old content.
\<close>

theorem download_replaces_raw_dir:
  assumes "plain_name (name a)" and "name a \<noteq> raw_name a"
    and "net e (archive_url a) = Some (Archive ms)"
    and "ms \<noteq> []" and "\<forall>m \<in> set ms. prefix (name a @ ''/'') (fst m)"
    and "files w (raw_dir a) = Some Dir"
    and "files w (archive_path a) \<noteq> Some Dir"
  shows "raw_file_names a = [name a @ ''_A.txt'', name a @ ''_graph_indicator.txt''] \<and>
         files_exist (raw_paths a) w =
           (exists w (raw_dir a @ ''/'' @ name a @ ''_A.txt'') \<and>
            exists w (raw_dir a @ ''/'' @ name a @ ''_graph_indicator.txt'')) \<and>
         ensure_raw e a w = (if files_exist (raw_paths a) w then Inr w else download e a w) \<and>
         (\<exists>w'. download e a w = Inr w' \<and>
            fetched w' =
              fetched w @ [(if cleaned a then cleaned_url else url) @ ''/'' @ name a @ ''.zip''] \<and>
            files w' (archive_path a) = None \<and>
            files w' (raw_dir a) = Some Dir \<and>
            (\<forall>t. files w' (raw_dir a @ ''/'' @ t) =
                   foldl (extract_member (dataset_folder a)) (files w) ms
                     (extracted_dir a @ ''/'' @ t)))"
proof -
  let ?f = "dataset_folder a"
  let ?u = "(if cleaned a then cleaned_url else url) @ ''/'' @ name a @ ''.zip''"
  let ?w1 = "w\<lparr>files := (files w)(?f @ ''/'' @ name a @ ''.zip'' \<mapsto> File (Archive ms)),
               fetched := fetched w @ [?u]\<rparr>"
  note p = download_paths [OF assms(1)]
  have rn: "CHR ''/'' \<notin> set (raw_name a)" "raw_name a \<noteq> name a"
    "raw_name a \<noteq> name a @ ''.zip''"
    using raw_name_facts(1,3) [of a] assms(2) by auto
  have du: "download_url e ?u ?f w = Inr (?f @ ''/'' @ name a @ ''.zip'', ?w1)"
    using assms(3,7) p(4)
    by (simp add: download_url_def archive_url_def archive_path_def Let_def
        split: option.splits node.splits)
  have d: "download e a w =
      (case extract_zip (?f @ ''/'' @ name a @ ''.zip'') ?f ?w1 of
         Inl err \<Rightarrow> Inl err
       | Inr w2 \<Rightarrow>
           (case unlink (?f @ ''/'' @ name a @ ''.zip'') w2 of
              Inl err \<Rightarrow> Inl err
            | Inr w3 \<Rightarrow>
                (case rmtree (?f @ ''/'' @ raw_name a) w3 of
                   Inl err \<Rightarrow> Inl err
                 | Inr w4 \<Rightarrow> rename (?f @ ''/'' @ name a) (?f @ ''/'' @ raw_name a) w4)))"
    unfolding download_def Let_def dataset_folder_def [symmetric]
    by (simp only: du sum.case prod.case p(3) p(5) [unfolded extracted_dir_def])
  have raw: "files w (?f @ ''/'' @ raw_name a) = Some Dir"
    using assms(6) unfolding p(3) .
  have zip: "files w (?f @ ''/'' @ name a @ ''.zip'') \<noteq> Some Dir"
    using assms(7) unfolding p(4) .
  have "\<exists>w'. download e a w = Inr w' \<and>
            fetched w' = fetched w @ [?u] \<and>
            files w' (?f @ ''/'' @ name a @ ''.zip'') = None \<and>
            files w' (?f @ ''/'' @ raw_name a) = Some Dir \<and>
            (\<forall>t. files w' (?f @ ''/'' @ raw_name a @ ''/'' @ t) =
                   foldl (extract_member ?f) (files w) ms (?f @ ''/'' @ name a @ ''/'' @ t))"
    unfolding d
    by (rule download_steps [OF assms(1) rn p(1,2) assms(4,5) raw zip])
  then have dl: "\<exists>w'. download e a w = Inr w' \<and>
            fetched w' = fetched w @ [?u] \<and>
            files w' (archive_path a) = None \<and>
            files w' (raw_dir a) = Some Dir \<and>
            (\<forall>t. files w' (raw_dir a @ ''/'' @ t) =
                   foldl (extract_member ?f) (files w) ms (extracted_dir a @ ''/'' @ t))"
    by (simp add: p(3,4,5))
  have er: "ensure_raw e a w = (if files_exist (raw_paths a) w then Inr w else download e a w)"
    using assms(6) by (simp add: ensure_raw_def makedirs_def)
  have fe: "files_exist (raw_paths a) w =
           (exists w (raw_dir a @ ''/'' @ name a @ ''_A.txt'') \<and>
            exists w (raw_dir a @ ''/'' @ name a @ ''_graph_indicator.txt''))"
    by (simp add: raw_paths_plain [OF assms(1)] files_exist_def)
  show ?thesis
    using dl er fe raw_file_names_eq [of a] by blast
qed

lemma ex_download_paths:
  "dataset_folder ex_args = ''data/MUTAG''" "archive_path ex_args = ''data/MUTAG/MUTAG.zip''"
  "extracted_dir ex_args = ''data/MUTAG/MUTAG''" "archive_url ex_args = url @ ''/MUTAG.zip''"
  "raw_name ex_args = ''raw''" "plain_name (name ex_args)"
  by (simp_all add: dataset_folder_def archive_path_def extracted_dir_def archive_url_def
      raw_name_def plain_name_def last_segment_def url_def osp_join_def join2_def
      startswith_sep_def endswith_sep_def ex_fields)

lemma ex_extracted:
  "foldl (extract_member ''data/MUTAG'') (files ex_stale_world) ex_archive
     ''data/MUTAG/MUTAG/MUTAG_A.txt'' = Some (File (Text ''1, 2''))"
  "foldl (extract_member ''data/MUTAG'') (files ex_stale_world) ex_archive
     ''data/MUTAG/MUTAG/MUTAG_graph_indicator.txt'' = Some (File (Text ''1''))"
  "foldl (extract_member ''data/MUTAG'') (files ex_stale_world) ex_archive
     ''data/MUTAG/MUTAG/old.txt'' = None"
  by (simp_all add: ex_archive_def ex_stale_world_def extract_member_apply parent_dirs_def
      upt_rec osp_join_def join2_def startswith_sep_def endswith_sep_def)

theorem download_replaces_raw_dir_witness:
  "\<exists>w'. download ex_env ex_args ex_stale_world = Inr w' \<and>
     ensure_raw ex_env ex_args ex_stale_world = Inr w' \<and>
     fetched w' = [url @ ''/MUTAG.zip''] \<and>
     files w' ''data/MUTAG/MUTAG.zip'' = None \<and>
     files w' ''data/MUTAG/raw'' = Some Dir \<and>
     files w' ''data/MUTAG/raw/MUTAG_A.txt'' = Some (File (Text ''1, 2'')) \<and>
     files w' ''data/MUTAG/raw/MUTAG_graph_indicator.txt'' = Some (File (Text ''1'')) \<and>
     files w' ''data/MUTAG/raw/old.txt'' = None \<and>
     files ex_stale_world ''data/MUTAG/raw/old.txt'' = Some (File (Text ''stale''))"
proof -
  have n: "name ex_args \<noteq> raw_name ex_args"
    by (simp add: ex_download_paths ex_fields)
  have a: "net ex_env (archive_url ex_args) = Some (Archive ex_archive)"
    by (simp add: ex_download_paths ex_env_def)
  have m: "ex_archive \<noteq> []" "\<forall>m \<in> set ex_archive. prefix (name ex_args @ ''/'') (fst m)"
    by (simp_all add: ex_archive_def ex_fields)
  have r: "files ex_stale_world (raw_dir ex_args) = Some Dir"
    by (simp add: ex_dirs ex_stale_world_def)
  have z: "files ex_stale_world (archive_path ex_args) \<noteq> Some Dir"
    by (simp add: ex_download_paths ex_stale_world_def)
  have ne: "\<not> files_exist (raw_paths ex_args) ex_stale_world"
    by (simp add: files_exist_def exists_def ex_paths(3) ex_fields ex_stale_world_def)
  have o: "files ex_stale_world ''data/MUTAG/raw/old.txt'' = Some (File (Text ''stale''))"
    by (simp add: ex_stale_world_def)
  obtain w' where w': "download ex_env ex_args ex_stale_world = Inr w'"
    "fetched w' = fetched ex_stale_world @ [url @ ''/'' @ name ex_args @ ''.zip'']"
    "files w' (archive_path ex_args) = None" "files w' (raw_dir ex_args) = Some Dir"
    "\<And>t. files w' (raw_dir ex_args @ ''/'' @ t) =
        foldl (extract_member (dataset_folder ex_args)) (files ex_stale_world) ex_archive
          (extracted_dir ex_args @ ''/'' @ t)"
    and er: "ensure_raw ex_env ex_args ex_stale_world =
       (if files_exist (raw_paths ex_args) ex_stale_world then Inr ex_stale_world
        else download ex_env ex_args ex_stale_world)"
    using download_replaces_raw_dir [OF ex_download_paths(6) n a m r z]
    by (auto simp: ex_fields)
  have "files w' ''data/MUTAG/raw/MUTAG_A.txt'' = Some (File (Text ''1, 2''))"
    "files w' ''data/MUTAG/raw/MUTAG_graph_indicator.txt'' = Some (File (Text ''1''))"
    "files w' ''data/MUTAG/raw/old.txt'' = None"
    using w'(5) [of "''MUTAG_A.txt''"] w'(5) [of "''MUTAG_graph_indicator.txt''"]
      w'(5) [of "''old.txt''"]
    by (simp_all add: ex_dirs ex_download_paths ex_extracted)
  moreover have "fetched w' = [url @ ''/MUTAG.zip'']"
    using w'(2) by (simp add: ex_fields ex_stale_world_def)
  moreover have "files w' ''data/MUTAG/MUTAG.zip'' = None" "files w' ''data/MUTAG/raw'' = Some Dir"
    using w'(3,4) by (simp_all add: ex_dirs ex_download_paths)
  moreover have "ensure_raw ex_env ex_args ex_stale_world = Inr w'"
    using er ne w'(1) by simp
  ultimately show ?thesis
    using w'(1) o by blast
qed


text \<open>
  Without a raw directory the same run fetches, extracts and deletes the archive, and then
  raises at \<^verbatim>\<open>shutil.rmtree\<close>: \<^verbatim>\<open>download\<close> relies on its caller for the directory.
\<close>

lemma download_without_raw_dir:
  assumes "plain_name (name a)" and "name a \<noteq> raw_name a"
    and "net e (archive_url a) = Some (Archive ms)"
    and "\<forall>m \<in> set ms. prefix (name a @ ''/'') (fst m)"
    and "files w (raw_dir a) = None"
    and "files w (archive_path a) \<noteq> Some Dir"
  shows "download e a w = Inl FileNotFoundError"
proof -
  let ?f = "dataset_folder a"
  let ?u = "(if cleaned a then cleaned_url else url) @ ''/'' @ name a @ ''.zip''"
  let ?zip = "?f @ ''/'' @ name a @ ''.zip''"
  let ?src = "?f @ ''/'' @ name a"
  let ?raw = "?f @ ''/'' @ raw_name a"
  let ?w1 = "w\<lparr>files := (files w)(?zip \<mapsto> File (Archive ms)), fetched := fetched w @ [?u]\<rparr>"
  let ?E = "foldl (extract_member ?f) (files ?w1) ms"
  note p = download_paths [OF assms(1)]
  have rn: "CHR ''/'' \<notin> set (raw_name a)" "raw_name a \<noteq> name a"
    "raw_name a \<noteq> name a @ ''.zip''"
    using raw_name_facts(1,3) [of a] assms(2) by auto
  have du: "download_url e ?u ?f w = Inr (?zip, ?w1)"
    using assms(3,6) p(4)
    by (simp add: download_url_def archive_url_def archive_path_def Let_def
        split: option.splits node.splits)
  have frame: "?E q = files ?w1 q" if "q \<noteq> ?src" "\<not> under ?src q" for q
    using extract_frame [OF assms(1) p(1,2) assms(4) that] .
  have "?zip \<noteq> ?src" "\<not> under ?src ?zip"
    by (simp_all add: under_below)
  then have E_zip: "?E ?zip = Some (File (Archive ms))"
    using frame [of ?zip] by simp
  have "?raw \<noteq> ?src" "\<not> under ?src ?raw" "?raw \<noteq> ?zip"
    using rn prefix_slash_mem [of "name a" "raw_name a"] by (auto simp: under_below)
  then have E_raw: "?E ?raw = None"
    using frame [of ?raw] assms(5) by (simp add: p(3))
  have s2: "extract_zip ?zip ?f ?w1 = Inr (?w1\<lparr>files := ?E\<rparr>)"
    by (simp add: extract_zip_def)
  have s3: "unlink ?zip (?w1\<lparr>files := ?E\<rparr>) = Inr (?w1\<lparr>files := ?E(?zip := None)\<rparr>)"
    using E_zip by (simp add: unlink_def)
  have s4: "rmtree ?raw (?w1\<lparr>files := ?E(?zip := None)\<rparr>) = Inl FileNotFoundError"
    using E_raw \<open>?raw \<noteq> ?zip\<close> by (simp add: rmtree_def)
  show ?thesis
    unfolding download_def Let_def dataset_folder_def [symmetric]
    by (simp only: du sum.case prod.case p(3) s2 s3 s4)
qed

end
